theory Spec2Isabelle
  imports Main "HOL-Library.Word"
begin

section \<open>Errors\<close>

text \<open>
  Every \<^verbatim>\<open>throw\<close> of the sources is a value. \<open>Error msg\<close> is JavaScript's
  \<^verbatim>\<open>new Error(msg)\<close>; \<open>TypeError\<close> is the run-time error of calling a method on
  \<^verbatim>\<open>undefined\<close>; the remaining constructors are the error kinds that the
  specification names for the numeral codec and the instruction codec.
\<close>

datatype error =
    Error string
  | TypeError
  | FormatError
  | RangeError
  | EncodeError
  | UndeclaredLabelError

definition try_bind :: "error + 'a \<Rightarrow> ('a \<Rightarrow> error + 'b) \<Rightarrow> error + 'b" where
  "try_bind r f = (case r of Inl e \<Rightarrow> Inl e | Inr v \<Rightarrow> f v)"

definition succeeds :: "error + 'a \<Rightarrow> bool" where
  "succeeds r = (case r of Inl _ \<Rightarrow> False | Inr _ \<Rightarrow> True)"

section \<open>Numeral codec (vm/ALU.js)\<close>

text \<open>
  Modelled from the spec: \<^verbatim>\<open>Trit\<close> and \<^verbatim>\<open>Tryte\<close> of vm/ALU.js, a module that all
  three source files import and that is not among them. A trit is "one of three
  states {negative, zero, positive}" with values -1, 0 and 1; a word is an "ordered
  sequence of exactly 9 trits, most-significant first". A tryte is well formed when it
  has nine trits.
\<close>

datatype trit = Neg | Zero | Pos

type_synonym tryte = "trit list"

definition wf_tryte :: "tryte \<Rightarrow> bool" where
  "wf_tryte t = (length t = 9)"

fun trit_val :: "trit \<Rightarrow> int" where
  "trit_val Neg = - 1"
| "trit_val Zero = 0"
| "trit_val Pos = 1"

definition trit_of :: "int \<Rightarrow> trit" where
  "trit_of r = (if r < 0 then Neg else if r = 0 then Zero else Pos)"

text \<open>
  Modelled from the spec: \<^verbatim>\<open>TRYTE_NUM_VALUES\<close> of vm/ALU.js, "3^9 = 19683 distinct
  values"; the comment at the head of Memory.ts gives the same number.
\<close>

definition TRYTE_NUM_VALUES :: nat where
  "TRYTE_NUM_VALUES = 19683"

text \<open>
  Modelled from the spec: \<^verbatim>\<open>wordToInt\<close>, "value = sum of trit[i] * 3^(8-i)", computed
  by Horner's rule from the most significant trit.
\<close>

definition trits_value :: "tryte \<Rightarrow> int" where
  "trits_value t = foldl (\<lambda>acc d. 3 * acc + trit_val d) 0 t"

text \<open>
  Modelled from the spec: \<^verbatim>\<open>t2n\<close> of vm/ALU.js, which converts a word and returns "a
  pre-converted integer" as it is. \<^verbatim>\<open>Memory.load\<close> and \<^verbatim>\<open>Memory.store\<close> take
  \<^verbatim>\<open>Tryte | number\<close> and hand it to \<^verbatim>\<open>t2n\<close>; vine.ts passes plain numbers
  (\<^verbatim>\<open>ram.load(addr)\<close>, \<^verbatim>\<open>ram.store(x, ...)\<close>). The specification does not say what
  \<^verbatim>\<open>t2n\<close> does with a number outside [-9841, 9841]; the theorems about Memory are
  stated for words and for numbers inside that range only.
\<close>

datatype tryte_or_number = Word tryte | Number int

fun t2n :: "tryte_or_number \<Rightarrow> int" where
  "t2n (Word t) = trits_value t"
| "t2n (Number n) = n"

text \<open>
  Modelled from the spec: \<^verbatim>\<open>intToWord\<close> (\<^verbatim>\<open>n2t\<close> of vm/ALU.js), the inverse of
  \<^verbatim>\<open>wordToInt\<close>, which "fails with RangeError if n is outside the representable
  range" [-9841, 9841]. \<open>trits_of k n\<close> is the \<open>k\<close> low-order balanced-ternary digits of
  \<open>n\<close>, least significant first; \<open>half_range k\<close> is the largest magnitude that \<open>k\<close>
  trits hold.
\<close>

fun trits_of :: "nat \<Rightarrow> int \<Rightarrow> trit list" where
  "trits_of 0 n = []"
| "trits_of (Suc k) n =
     (let r = (n + 1) mod 3 - 1 in trit_of r # trits_of k ((n - r) div 3))"

definition tryte_of :: "int \<Rightarrow> tryte" where
  "tryte_of n = rev (trits_of 9 n)"

definition n2t :: "int \<Rightarrow> error + tryte" where
  "n2t n = (if - 9841 \<le> n \<and> n \<le> 9841 then Inr (tryte_of n) else Inl RangeError)"

fun half_range :: "nat \<Rightarrow> int" where
  "half_range 0 = 0"
| "half_range (Suc k) = 3 * half_range k + 1"

text \<open>
  Modelled from the spec: \<^verbatim>\<open>stringToWord\<close> (\<^verbatim>\<open>s2t\<close> of vm/ALU.js), which "parses a
  9-character string over alphabet {-, o, +} into a word; fails with FormatError if
  length is not 9 or a character is outside the alphabet".
\<close>

fun char_trit :: "char \<Rightarrow> trit option" where
  "char_trit c =
     (if c = CHR ''-'' then Some Neg
      else if c = CHR ''o'' then Some Zero
      else if c = CHR ''+'' then Some Pos
      else None)"

definition s2t :: "string \<Rightarrow> error + tryte" where
  "s2t s =
     (if length s = 9 \<and> (\<forall>c \<in> set s. char_trit c \<noteq> None)
      then Inr (map (\<lambda>c. the (char_trit c)) s)
      else Inl FormatError)"

text \<open>Modelled from the spec: \<^verbatim>\<open>clone\<close> of vm/ALU.js, a copy of the nine trits.\<close>

definition clone :: "tryte \<Rightarrow> tryte" where
  "clone t = t"

text \<open>
  Modelled from the spec: \<^verbatim>\<open>ALU.add\<close> of vm/ALU.js, "signed balanced-ternary addition,
  wraparound at the +-9841 boundary". The sources discard its return value and rely on
  the accumulator being updated in place, so the model returns the new accumulator.
\<close>

definition wrap_tryte :: "int \<Rightarrow> int" where
  "wrap_tryte n = (n + 9841) mod 19683 - 9841"

definition alu_add :: "tryte \<Rightarrow> tryte \<Rightarrow> tryte" where
  "alu_add acc operand = tryte_of (wrap_tryte (trits_value acc + trits_value operand))"

section \<open>Memory (vm/Memory.ts)\<close>

text \<open>
  The backing store is an \<^verbatim>\<open>Int32Array\<close>: a fixed-length array of 32-bit signed
  integers. A write converts its value to 32 bits; a read or write at an index outside
  the array does not fail in JavaScript: the read gives \<^verbatim>\<open>undefined\<close> (\<open>None\<close>) and
  the write is dropped.
\<close>

record Memory =
  block :: "32 word list"

definition int32array_get :: "32 word list \<Rightarrow> int \<Rightarrow> int option" where
  "int32array_get b i = (if 0 \<le> i \<and> i < int (length b) then Some (sint (b ! nat i)) else None)"

definition int32array_set :: "32 word list \<Rightarrow> int \<Rightarrow> int \<Rightarrow> 32 word list" where
  "int32array_set b i v = (if 0 \<le> i \<and> i < int (length b) then b[nat i := word_of_int v] else b)"

text \<open>
  \<^verbatim>\<open>constructor(size = TRYTE_NUM_VALUES) { this.block = new Int32Array(TRYTE_NUM_VALUES) }\<close>:
  an omitted argument is \<open>None\<close>.
\<close>

definition Memory_constructor :: "int option \<Rightarrow> Memory" where
  "Memory_constructor size_arg =
     (let size = (case size_arg of None \<Rightarrow> int TRYTE_NUM_VALUES | Some s \<Rightarrow> s)
      in \<lparr>block = replicate TRYTE_NUM_VALUES 0\<rparr>)"

text \<open>
  \<^verbatim>\<open>load(addr) { return n2t(this.block[t2n(addr) + 9841]) }\<close>. What \<^verbatim>\<open>n2t\<close> makes of
  \<^verbatim>\<open>undefined\<close> is decided in ALU.js and not by the specification; it is the
  parameter \<open>n2t_undefined\<close>.
\<close>

definition load :: "error + tryte \<Rightarrow> Memory \<Rightarrow> tryte_or_number \<Rightarrow> error + tryte" where
  "load n2t_undefined m addr =
     (case int32array_get (block m) (t2n addr + 9841) of
        None \<Rightarrow> n2t_undefined
      | Some v \<Rightarrow> n2t v)"

definition store :: "Memory \<Rightarrow> tryte_or_number \<Rightarrow> tryte_or_number \<Rightarrow> Memory" where
  "store m val addr =
     (let addrNumber = t2n addr;
          valueNumber = t2n val
      in m\<lparr>block := int32array_set (block m) (addrNumber + 9841) valueNumber\<rparr>)"

text \<open>
  The values that the claims about Memory range over: a well-formed word, or a number in
  the range of a word.
\<close>

definition representable :: "tryte_or_number \<Rightarrow> bool" where
  "representable x =
     (case x of Word t \<Rightarrow> wf_tryte t | Number n \<Rightarrow> - 9841 \<le> n \<and> n \<le> 9841)"

section \<open>Assembler (asm/assemble.ts)\<close>

subsection \<open>Strings\<close>

text \<open>
  Source text is a list of 8-bit characters. \<open>trim\<close> removes the white space and line
  terminators of JavaScript that fit in 8 bits; \<open>toUpperCase\<close> and \<open>toLowerCase\<close> map
  the letters a-z and A-Z, which decides every comparison against the ASCII case labels
  of the source for such text.
\<close>

definition is_space :: "char \<Rightarrow> bool" where
  "is_space c = (c \<in> set [CHR 0x09, CHR 0x0A, CHR 0x0B, CHR 0x0C, CHR 0x0D, CHR 0x20, CHR 0xA0])"

definition trim :: "string \<Rightarrow> string" where
  "trim s = rev (dropWhile is_space (rev (dropWhile is_space s)))"

definition upper_char :: "char \<Rightarrow> char" where
  "upper_char c =
     (let n = (of_char c :: nat) in if 97 \<le> n \<and> n \<le> 122 then char_of (n - 32) else c)"

definition lower_char :: "char \<Rightarrow> char" where
  "lower_char c =
     (let n = (of_char c :: nat) in if 65 \<le> n \<and> n \<le> 90 then char_of (n + 32) else c)"

definition toUpperCase :: "string \<Rightarrow> string" where
  "toUpperCase s = map upper_char s"

definition toLowerCase :: "string \<Rightarrow> string" where
  "toLowerCase s = map lower_char s"

text \<open>\<^verbatim>\<open>input.split('\n')\<close>\<close>

fun split_newline :: "string \<Rightarrow> string list" where
  "split_newline [] = [[]]"
| "split_newline (c # cs) =
     (if c = CHR 0x0A then [] # split_newline cs
      else (case split_newline cs of
              [] \<Rightarrow> [[c]]
            | l # ls \<Rightarrow> (c # l) # ls))"

text \<open>
  \<^verbatim>\<open>line.replace(/;.*$/, '')\<close>: the text from the first semicolon that is followed, up
  to the end of the line, by no line terminator (\<open>.\<close> does not match a carriage return,
  and \<open>$\<close> without the \<open>m\<close> flag is the end of the string).
\<close>

fun strip_comment :: "string \<Rightarrow> string" where
  "strip_comment [] = []"
| "strip_comment (c # cs) =
     (if c = CHR '';'' \<and> CHR 0x0D \<notin> set cs then [] else c # strip_comment cs)"

definition source_lines :: "string \<Rightarrow> string list" where
  "source_lines input =
     filter (\<lambda>line. length line > 0)
       (map (\<lambda>line. trim (strip_comment line)) (split_newline input))"

subsection \<open>Instructions\<close>

text \<open>
  Modelled from the spec: \<^verbatim>\<open>AddressingMode\<close> and \<^verbatim>\<open>InstructionLabeled\<close> of
  vm/Instruction.js (not among the sources), with the fields that assemble.ts fills in.
  \<open>z\<close> is \<^verbatim>\<open>null\<close>, a word, or a label name.
\<close>

datatype AddressingMode = REGISTER_REGISTER | SHORT_IMMEDIATE | WORD_IMMEDIATE

datatype tryte_or_label = ZWord tryte | ZLabel string

record PartialInstruction =
  opcode :: tryte
  x_op :: tryte

record InstructionLabeled = PartialInstruction +
  addressingMode :: AddressingMode
  y_op :: tryte
  z_op :: "tryte_or_label option"

text \<open>JavaScript truthiness of a \<open>z\<close> value: an array is truthy, the empty string is not.\<close>

fun truthy :: "tryte_or_label \<Rightarrow> bool" where
  "truthy (ZWord t) = True"
| "truthy (ZLabel name) = (name \<noteq> [])"

definition expect :: "'a option \<Rightarrow> string \<Rightarrow> error + 'a" where
  "expect maybe msg = (case maybe of None \<Rightarrow> Inl (Error msg) | Some v \<Rightarrow> Inr v)"

fun parts_loop :: "string list \<Rightarrow> string \<Rightarrow> string \<Rightarrow> string list" where
  "parts_loop operands buffer [] = (if length buffer > 0 then operands @ [buffer] else operands)"
| "parts_loop operands buffer (c # cs) =
     (if length operands = 0 then
        (if c = CHR '' '' then parts_loop (operands @ [buffer]) [] cs
         else parts_loop operands (buffer @ [c]) cs)
      else
        (if c = CHR '','' then parts_loop (operands @ [buffer]) [] cs
         else parts_loop operands (buffer @ [c]) cs))"

definition parseInstructionParts :: "string \<Rightarrow> string list" where
  "parseInstructionParts line = parts_loop [] [] line"

text \<open>\<^verbatim>\<open>operands.shift()\<close>: the first element (or \<^verbatim>\<open>undefined\<close>) and the rest.\<close>

fun shift :: "string list \<Rightarrow> string option \<times> string list" where
  "shift [] = (None, [])"
| "shift (operand # rest) = (Some operand, rest)"

definition some_n2t :: "int \<Rightarrow> error + tryte option" where
  "some_n2t n = try_bind (n2t n) (\<lambda>t. Inr (Some t))"

definition parseRegisterOperand :: "string option \<Rightarrow> error + tryte option" where
  "parseRegisterOperand operand =
     (case operand of
        None \<Rightarrow> Inr None
      | Some s \<Rightarrow>
          if s = [] then Inr None
          else
            (let trimmed = toLowerCase (trim s) in
             if trimmed = ''r0'' then some_n2t (- 4)
             else if trimmed = ''r1'' then some_n2t (- 3)
             else if trimmed = ''r2'' then some_n2t (- 2)
             else if trimmed = ''r3'' then some_n2t (- 1)
             else if trimmed = ''r4'' then some_n2t 0
             else if trimmed = ''r5'' then some_n2t 1
             else if trimmed = ''r6'' then some_n2t 2
             else if trimmed = ''ra'' then some_n2t 3
             else if trimmed = ''sp'' then some_n2t 4
             else Inr None))"

definition parseImmediateOperand :: "string option \<Rightarrow> tryte option" where
  "parseImmediateOperand operand =
     (case operand of
        None \<Rightarrow> None
      | Some s \<Rightarrow>
          if s = [] then None
          else (case s2t (trim s) of Inl _ \<Rightarrow> None | Inr t \<Rightarrow> Some t))"

definition parseAddressOperand :: "string option \<Rightarrow> tryte_or_label option" where
  "parseAddressOperand operand =
     (case operand of
        None \<Rightarrow> None
      | Some s \<Rightarrow>
          if s = [] then None
          else
            (let trimmed = trim s in
             if trimmed \<noteq> [] \<and> hd trimmed = CHR ''.'' then Some (ZLabel (tl trimmed))
             else (case s2t trimmed of Inl _ \<Rightarrow> None | Inr t \<Rightarrow> Some (ZWord t))))"

text \<open>\<^verbatim>\<open>const n = t2n(value); return n > 4 && n < -4\<close>\<close>

definition isShort :: "tryte \<Rightarrow> bool" where
  "isShort v = (let n = t2n (Word v) in n > 4 \<and> n < - 4)"

definition unionParseYZ ::
  "PartialInstruction \<Rightarrow> string option \<Rightarrow> bool \<Rightarrow> error + InstructionLabeled option" where
  "unionParseYZ partial operand allowLabel =
     try_bind (parseRegisterOperand operand) (\<lambda>asRegister.
       case asRegister of
         Some r \<Rightarrow>
           Inr (Some \<lparr>opcode = opcode partial, x_op = x_op partial,
                      addressingMode = REGISTER_REGISTER, y_op = r, z_op = None\<rparr>)
       | None \<Rightarrow>
           (case parseImmediateOperand operand of
              Some asImmediate \<Rightarrow>
                if isShort asImmediate then
                  Inr (Some \<lparr>opcode = opcode partial, x_op = x_op partial,
                             addressingMode = SHORT_IMMEDIATE, y_op = asImmediate, z_op = None\<rparr>)
                else
                  try_bind (n2t 0) (\<lambda>zero.
                    Inr (Some \<lparr>opcode = opcode partial, x_op = x_op partial,
                               addressingMode = WORD_IMMEDIATE, y_op = zero,
                               z_op = Some (ZWord asImmediate)\<rparr>))
            | None \<Rightarrow>
                if allowLabel then
                  (case parseAddressOperand operand of
                     Some asAddress \<Rightarrow>
                       if truthy asAddress then
                         try_bind (n2t 0) (\<lambda>zero.
                           Inr (Some \<lparr>opcode = opcode partial, x_op = x_op partial,
                                      addressingMode = WORD_IMMEDIATE, y_op = zero,
                                      z_op = Some asAddress\<rparr>))
                       else Inr None
                   | None \<Rightarrow> Inr None)
                else Inr None))"

text \<open>
  The cases MOV, ADD, MUL, DIV, STA and LDA of \<open>parseInstruction\<close> have one shape and
  differ in the opcode and the two messages:
  \<^verbatim>\<open>expect(unionParseYZ({opcode: n2t(c), x: expect(parseRegisterOperand(operands.shift()), msg1)}, operands.shift()), msg2)\<close>.
  The operands left over are returned with the instruction (the source mutates the
  array).
\<close>

definition parse_register_yz ::
  "int \<Rightarrow> string \<Rightarrow> string \<Rightarrow> string list \<Rightarrow> error + (InstructionLabeled \<times> string list)" where
  "parse_register_yz c msg1 msg2 operands =
     try_bind (n2t c) (\<lambda>opc.
       case shift operands of (operand1, rest1) \<Rightarrow>
         try_bind (parseRegisterOperand operand1) (\<lambda>reg.
           try_bind (expect reg msg1) (\<lambda>xr.
             case shift rest1 of (operand2, rest2) \<Rightarrow>
               try_bind (unionParseYZ \<lparr>opcode = opc, x_op = xr\<rparr> operand2 False) (\<lambda>parsed.
                 try_bind (expect parsed msg2) (\<lambda>instruction.
                   Inr (instruction, rest2))))))"

definition parseInstruction ::
  "string \<Rightarrow> string list \<Rightarrow> error + (InstructionLabeled \<times> string list)" where
  "parseInstruction mnemonic operands =
     (let m = toUpperCase mnemonic in
      if m = ''NOP'' then
        try_bind (n2t 0) (\<lambda>opc. try_bind (n2t 0) (\<lambda>xr. try_bind (n2t 0) (\<lambda>yr.
          Inr (\<lparr>opcode = opc, x_op = xr, addressingMode = REGISTER_REGISTER,
                 y_op = yr, z_op = None\<rparr>, operands))))
      else if m = ''MOV'' then
        parse_register_yz 0
          ''MOV: operand 1 (destination) must be a register''
          ''MOV: operand 2 (source) must be a register or immediate'' operands
      else if m = ''ADD'' then
        parse_register_yz (- 39)
          ''ADD: operand 1 must be a register''
          ''ADD: operand 2 must be a register or immediate'' operands
      else if m = ''MUL'' then
        parse_register_yz (- 37)
          ''MUL: operand 1 must be a register''
          ''MUL: operand 2 must be a register or immediate'' operands
      else if m = ''DIV'' then
        parse_register_yz (- 36)
          ''DIV: operand 1 must be a register''
          ''DIV: operand 2 must be a register or immediate'' operands
      else if m = ''STA'' then
        parse_register_yz 2
          ''STA: operand 1 must be a register''
          ''STA: operand 2 must be a register or address'' operands
      else if m = ''LDA'' then
        parse_register_yz 1
          ''LDA: operand 1 must be a register''
          ''LDA: operand 2 must be a register or address'' operands
      else if m = ''JMP'' then
        try_bind (n2t 36) (\<lambda>opc. try_bind (n2t 0) (\<lambda>xr.
          case shift operands of (operand1, rest1) \<Rightarrow>
            try_bind (unionParseYZ \<lparr>opcode = opc, x_op = xr\<rparr> operand1 True) (\<lambda>parsed.
              try_bind (expect parsed ''JMP: operand must be a register or immediate address'')
                (\<lambda>instruction. Inr (instruction, rest1)))))
      else Inl (Error (''unknown operation '' @ [CHR 0x27] @ mnemonic @ [CHR 0x27])))"

definition assembleOpcodeStr :: "string \<Rightarrow> error + tryte" where
  "assembleOpcodeStr str =
     (let u = toUpperCase str in
      if u = ''ADD'' then n2t (- 13)
      else if u = ''ADDC'' then n2t (- 11)
      else if u = ''MUL'' then n2t (- 10)
      else if u = ''DIV'' then n2t (- 9)
      else if u = ''MOD'' then n2t (- 8)
      else if u = ''NEG'' then n2t (- 7)
      else if u = ''MIN'' then n2t (- 6)
      else if u = ''MAX'' then n2t (- 5)
      else if u = ''CON'' then n2t (- 4)
      else if u = ''ANY'' then n2t (- 3)
      else if u = ''RSH'' then n2t (- 2)
      else if u = ''USH'' then n2t (- 1)
      else if u = ''NOP'' then n2t 0
      else if u = ''MOV'' then n2t 1
      else if u = ''CMP'' then n2t 2
      else if u = ''JMP'' then n2t 3
      else if u = ''BEQ'' then n2t 4
      else if u = ''BGT'' then n2t 5
      else if u = ''BLT'' then n2t 6
      else if u = ''JAL'' then n2t 7
      else if u = ''LOD'' then n2t 8
      else if u = ''XOR'' then n2t 9
      else Inl (Error (''Unknown instruction: '' @ str)))"

subsection \<open>Encoding (vm/Instruction.js)\<close>

text \<open>
  Modelled from the spec: \<^verbatim>\<open>assembleInstruction\<close> of vm/Instruction.js (not among the
  sources): "packs opcode, addressing mode, and operand selectors into sub-fields of the
  first word (plus a full second word under WORD_IMMEDIATE); fails with EncodeError on
  an out-of-range selector or an unresolved label"; pass 2 "resolves any label operand
  against the now-complete label table (fails with UndeclaredLabelError if never
  bound)". The specification does not give the layout of the first word: it is the
  parameter \<open>pack\<close>.
\<close>

definition assembleInstruction ::
  "(InstructionLabeled \<Rightarrow> error + tryte) \<Rightarrow> InstructionLabeled \<Rightarrow> (string \<rightharpoonup> tryte)
     \<Rightarrow> error + (tryte \<times> tryte option)" where
  "assembleInstruction pack instruction label_table =
     try_bind (pack instruction) (\<lambda>first.
       if addressingMode instruction = WORD_IMMEDIATE then
         (case z_op instruction of
            None \<Rightarrow> Inl EncodeError
          | Some (ZWord t) \<Rightarrow> Inr (first, Some t)
          | Some (ZLabel name) \<Rightarrow>
              (case label_table name of
                 None \<Rightarrow> Inl UndeclaredLabelError
               | Some a \<Rightarrow> Inr (first, Some a)))
       else Inr (first, None))"

subsection \<open>The two passes\<close>

text \<open>\<^verbatim>\<open>line[0] != '.'\<close> tells an instruction from a label.\<close>

definition is_label_line :: "string \<Rightarrow> bool" where
  "is_label_line line = (line \<noteq> [] \<and> hd line = CHR ''.'')"

text \<open>
  The state of the first loop: the address cursor, the label map, and the arguments of
  each \<^verbatim>\<open>console.warn\<close> call so far. (\<^verbatim>\<open>console.debug\<close> is not modelled.)
\<close>

record pass1_state =
  p1_address :: tryte
  p1_labels :: "string \<rightharpoonup> tryte"
  p1_console :: "string list list"

definition pass1_line :: "string \<Rightarrow> pass1_state \<Rightarrow> error + pass1_state" where
  "pass1_line line st =
     (if \<not> is_label_line line then
        (case parseInstructionParts line of
           [] \<Rightarrow> Inl TypeError
         | mnemonic # operands \<Rightarrow>
             try_bind (parseInstruction mnemonic operands) (\<lambda>(instruction, operands').
               if length operands' > 0 then Inl (Error (mnemonic @ '': too many operands''))
               else
                 try_bind (n2t 1) (\<lambda>one.
                   let address = alu_add (p1_address st) one in
                   if (case z_op instruction of None \<Rightarrow> False | Some v \<Rightarrow> truthy v) then
                     try_bind (n2t 1) (\<lambda>one'.
                       Inr (st\<lparr>p1_address := alu_add address one'\<rparr>))
                   else Inr (st\<lparr>p1_address := address\<rparr>))))
      else
        (let labelName = tl line;
             warned = (if p1_labels st labelName \<noteq> None
                       then p1_console st @ [[''label redeclared:'', labelName]]
                       else p1_console st)
         in Inr (st\<lparr>p1_labels := (p1_labels st)(labelName \<mapsto> clone (p1_address st)),
                     p1_console := warned\<rparr>)))"

text \<open>
  The state of the second loop: the address cursor, the program image and the
  \<^verbatim>\<open>instructions\<close> array (indexed by the cursor's integer value).
\<close>

record pass2_state =
  p2_address :: tryte
  cart :: Memory
  p2_instructions :: "int \<rightharpoonup> InstructionLabeled"

definition pass2_line ::
  "(InstructionLabeled \<Rightarrow> error + tryte) \<Rightarrow> (string \<rightharpoonup> tryte) \<Rightarrow> string \<Rightarrow> pass2_state
     \<Rightarrow> error + pass2_state" where
  "pass2_line pack label_table line st =
     (if \<not> is_label_line line then
        (case parseInstructionParts line of
           [] \<Rightarrow> Inl TypeError
         | mnemonic # operands \<Rightarrow>
             try_bind (parseInstruction mnemonic operands) (\<lambda>(instruction, operands').
               let instrs = (p2_instructions st)(t2n (Word (p2_address st)) \<mapsto> instruction) in
               try_bind (assembleInstruction pack instruction label_table) (\<lambda>(data0, data1).
                 let cart0 = store (cart st) (Word data0) (Word (p2_address st)) in
                 try_bind (n2t 1) (\<lambda>one.
                   let address = alu_add (p2_address st) one in
                   case data1 of
                     Some second \<Rightarrow>
                       let cart1 = store cart0 (Word second) (Word address) in
                       try_bind (n2t 1) (\<lambda>one'.
                         Inr \<lparr>p2_address = alu_add address one', cart = cart1,
                              p2_instructions = instrs\<rparr>)
                   | None \<Rightarrow>
                       Inr \<lparr>p2_address = address, cart = cart0, p2_instructions = instrs\<rparr>))))
      else Inr st)"

text \<open>\<^verbatim>\<open>for (const line of lines) { ... }\<close>, stopping at the first throw.\<close>

fun for_lines :: "(string \<Rightarrow> 's \<Rightarrow> error + 's) \<Rightarrow> string list \<Rightarrow> 's \<Rightarrow> error + 's" where
  "for_lines body [] st = Inr st"
| "for_lines body (line # rest) st = try_bind (body line st) (for_lines body rest)"

record DebugInfo =
  labels :: "string \<rightharpoonup> tryte"
  instructions :: "int \<rightharpoonup> InstructionLabeled"

text \<open>What a call returns: \<^verbatim>\<open>{ mem, debug }\<close>, and the warnings it printed.\<close>

record assembled =
  mem :: Memory
  debug :: DebugInfo
  warnings :: "string list list"

definition pass1 :: "string list \<Rightarrow> error + pass1_state" where
  "pass1 lines =
     try_bind (s2t ''ooooooooo'') (\<lambda>address.
       for_lines pass1_line lines
         \<lparr>p1_address = address, p1_labels = Map.empty, p1_console = []\<rparr>)"

definition pass2 ::
  "(InstructionLabeled \<Rightarrow> error + tryte) \<Rightarrow> (string \<rightharpoonup> tryte) \<Rightarrow> string list
     \<Rightarrow> error + pass2_state" where
  "pass2 pack label_table lines =
     try_bind (s2t ''ooooooooo'') (\<lambda>address.
       for_lines (pass2_line pack label_table) lines
         \<lparr>p2_address = address, cart = Memory_constructor None, p2_instructions = Map.empty\<rparr>)"

definition assemble_lines ::
  "(InstructionLabeled \<Rightarrow> error + tryte) \<Rightarrow> string list \<Rightarrow> error + assembled" where
  "assemble_lines pack lines =
     try_bind (pass1 lines) (\<lambda>s1.
       try_bind (pass2 pack (p1_labels s1) lines) (\<lambda>s2.
         Inr \<lparr>mem = cart s2,
              debug = \<lparr>labels = p1_labels s1, instructions = p2_instructions s2\<rparr>,
              warnings = p1_console s1\<rparr>))"

definition assemble :: "(InstructionLabeled \<Rightarrow> error + tryte) \<Rightarrow> string \<Rightarrow> error + assembled" where
  "assemble pack input = assemble_lines pack (source_lines input)"

subsection \<open>Objects of a call\<close>

text \<open>
  \<open>assemble\<close> above is the function that a call computes. What a call shares with
  other calls is decided by the objects it creates and mutates: \<^verbatim>\<open>new Memory()\<close> and
  \<^verbatim>\<open>new Map()\<close> allocate, and the two loops update these objects in place
  (\<^verbatim>\<open>labels.set\<close>, \<^verbatim>\<open>cart.store\<close>). The object store maps references to the states
  of the objects; \<open>next_ref\<close> is the next reference that an allocation hands out. The
  loops read the object, run the line and write the object back. assemble.ts has no
  variable outside its functions; the address cursors, the \<^verbatim>\<open>instructions\<close> array and
  the returned record are created inside the call and are passed by value here.
\<close>

record js_heap =
  memories :: "nat \<rightharpoonup> Memory"
  label_maps :: "nat \<rightharpoonup> (string \<rightharpoonup> tryte)"
  next_ref :: nat

definition new_Memory :: "js_heap \<Rightarrow> nat \<times> js_heap" where
  "new_Memory h =
     (next_ref h,
      h\<lparr>memories := (memories h)(next_ref h \<mapsto> Memory_constructor None),
        next_ref := Suc (next_ref h)\<rparr>)"

definition new_Map :: "js_heap \<Rightarrow> nat \<times> js_heap" where
  "new_Map h =
     (next_ref h,
      h\<lparr>label_maps := (label_maps h)(next_ref h \<mapsto> Map.empty),
        next_ref := Suc (next_ref h)\<rparr>)"

fun for_lines_heap ::
  "(string \<Rightarrow> 's \<Rightarrow> js_heap \<Rightarrow> (error + 's) \<times> js_heap) \<Rightarrow> string list \<Rightarrow> 's \<Rightarrow> js_heap
     \<Rightarrow> (error + 's) \<times> js_heap" where
  "for_lines_heap body [] st h = (Inr st, h)"
| "for_lines_heap body (line # rest) st h =
     (case body line st h of
        (Inl e, h') \<Rightarrow> (Inl e, h')
      | (Inr st', h') \<Rightarrow> for_lines_heap body rest st' h')"

definition pass1_line_heap ::
  "nat \<Rightarrow> string \<Rightarrow> tryte \<times> string list list \<Rightarrow> js_heap
     \<Rightarrow> (error + tryte \<times> string list list) \<times> js_heap" where
  "pass1_line_heap labels_obj line st h =
     (case label_maps h labels_obj of
        None \<Rightarrow> (Inl TypeError, h)
      | Some label_table \<Rightarrow>
          (case pass1_line line
                  \<lparr>p1_address = fst st, p1_labels = label_table, p1_console = snd st\<rparr> of
             Inl e \<Rightarrow> (Inl e, h)
           | Inr st' \<Rightarrow>
               (Inr (p1_address st', p1_console st'),
                h\<lparr>label_maps := (label_maps h)(labels_obj \<mapsto> p1_labels st')\<rparr>)))"

definition pass2_line_heap ::
  "(InstructionLabeled \<Rightarrow> error + tryte) \<Rightarrow> nat \<Rightarrow> nat \<Rightarrow> string
     \<Rightarrow> tryte \<times> (int \<rightharpoonup> InstructionLabeled) \<Rightarrow> js_heap
     \<Rightarrow> (error + tryte \<times> (int \<rightharpoonup> InstructionLabeled)) \<times> js_heap" where
  "pass2_line_heap pack cart_obj labels_obj line st h =
     (case (memories h cart_obj, label_maps h labels_obj) of
        (Some m, Some label_table) \<Rightarrow>
          (case pass2_line pack label_table line
                  \<lparr>p2_address = fst st, cart = m, p2_instructions = snd st\<rparr> of
             Inl e \<Rightarrow> (Inl e, h)
           | Inr st' \<Rightarrow>
               (Inr (p2_address st', p2_instructions st'),
                h\<lparr>memories := (memories h)(cart_obj \<mapsto> cart st')\<rparr>))
      | _ \<Rightarrow> (Inl TypeError, h))"

record assembled_refs =
  mem_ref :: nat
  labels_ref :: nat
  instructions_of :: "int \<rightharpoonup> InstructionLabeled"
  warnings_of :: "string list list"

definition assemble_heap ::
  "(InstructionLabeled \<Rightarrow> error + tryte) \<Rightarrow> string \<Rightarrow> js_heap
     \<Rightarrow> (error + assembled_refs) \<times> js_heap" where
  "assemble_heap pack input h =
     (let lines = source_lines input in
      case new_Memory h of (cart_obj, h1) \<Rightarrow>
      case new_Map h1 of (labels_obj, h2) \<Rightarrow>
      case s2t ''ooooooooo'' of
        Inl e \<Rightarrow> (Inl e, h2)
      | Inr address1 \<Rightarrow>
          (case for_lines_heap (pass1_line_heap labels_obj) lines (address1, []) h2 of
             (Inl e, h3) \<Rightarrow> (Inl e, h3)
           | (Inr (a1, console), h3) \<Rightarrow>
               (case s2t ''ooooooooo'' of
                  Inl e \<Rightarrow> (Inl e, h3)
                | Inr address2 \<Rightarrow>
                    (case for_lines_heap (pass2_line_heap pack cart_obj labels_obj) lines
                            (address2, Map.empty) h3 of
                       (Inl e, h4) \<Rightarrow> (Inl e, h4)
                     | (Inr (a2, instrs), h4) \<Rightarrow>
                         (Inr \<lparr>mem_ref = cart_obj, labels_ref = labels_obj,
                               instructions_of = instrs, warnings_of = console\<rparr>, h4)))))"

text \<open>The heap after a call: the heap before, with two new objects.\<close>

definition allocated :: "js_heap \<Rightarrow> Memory \<Rightarrow> (string \<rightharpoonup> tryte) \<Rightarrow> js_heap" where
  "allocated h m label_table =
     h\<lparr>memories := (memories h)(next_ref h \<mapsto> m),
       label_maps := (label_maps h)(Suc (next_ref h) \<mapsto> label_table),
       next_ref := Suc (Suc (next_ref h))\<rparr>"

subsection \<open>Tables read off the parser\<close>

text \<open>The case labels of \<open>parseRegisterOperand\<close> and of \<open>parseInstruction\<close>.\<close>

definition register_tokens :: "string list" where
  "register_tokens = [''r0'', ''r1'', ''r2'', ''r3'', ''r4'', ''r5'', ''r6'', ''ra'', ''sp'']"

definition mnemonics :: "string list" where
  "mnemonics = [''NOP'', ''MOV'', ''ADD'', ''MUL'', ''DIV'', ''STA'', ''LDA'', ''JMP'']"

text \<open>The opcode constant in each case of \<open>parseInstruction\<close>.\<close>

definition parser_opcode :: "string \<Rightarrow> int" where
  "parser_opcode m =
     (if m = ''NOP'' then 0 else if m = ''MOV'' then 0 else if m = ''ADD'' then - 39
      else if m = ''MUL'' then - 37 else if m = ''DIV'' then - 36 else if m = ''STA'' then 2
      else if m = ''LDA'' then 1 else 36)"

text \<open>The instruction that \<open>parseInstruction\<close> builds for the line \<open>JMP .end\<close>.\<close>

definition jmp_end :: InstructionLabeled where
  "jmp_end = \<lparr>opcode = tryte_of 36, x_op = tryte_of 0, addressingMode = WORD_IMMEDIATE,
               y_op = tryte_of 0, z_op = Some (ZLabel ''end'')\<rparr>"

section \<open>Properties of the numeral codec\<close>

lemma trits_value_snoc: "trits_value (t @ [d]) = 3 * trits_value t + trit_val d"
  by (simp add: trits_value_def)

lemma trits_value_positional:
  "trits_value [t0, t1, t2, t3, t4, t5, t6, t7, t8]
     = trit_val t0 * 3 ^ 8 + trit_val t1 * 3 ^ 7 + trit_val t2 * 3 ^ 6 + trit_val t3 * 3 ^ 5
       + trit_val t4 * 3 ^ 4 + trit_val t5 * 3 ^ 3 + trit_val t6 * 3 ^ 2 + trit_val t7 * 3
       + trit_val t8"
  by (simp add: trits_value_def)

lemma trit_val_trit_of: "r = - 1 \<or> r = 0 \<or> r = 1 \<Longrightarrow> trit_val (trit_of r) = r"
  by (auto simp: trit_of_def)

lemma trit_of_trit_val: "trit_of (trit_val d) = d"
  by (cases d) (simp_all add: trit_of_def)

lemma length_trits_of: "length (trits_of k n) = k"
  by (induction k arbitrary: n) (simp_all add: Let_def)

lemma half_range_9: "half_range 9 = 9841"
  by (simp add: eval_nat_numeral)

lemma trits_value_rev_bound:
  "length ds = k \<Longrightarrow> \<bar>trits_value (rev ds)\<bar> \<le> half_range k"
proof (induction ds arbitrary: k)
  case Nil
  then show ?case by (simp add: trits_value_def)
next
  case (Cons d ds)
  then obtain j where k: "k = Suc j" and len: "length ds = j" by (cases k) auto
  have "\<bar>trits_value (rev ds)\<bar> \<le> half_range j" using Cons.IH [OF len] .
  moreover have "\<bar>trit_val d\<bar> \<le> 1" by (cases d) simp_all
  ultimately show ?case by (simp add: k trits_value_snoc)
qed

lemma trits_value_bound: "length t = k \<Longrightarrow> \<bar>trits_value t\<bar> \<le> half_range k"
  using trits_value_rev_bound [of "rev t" k] by simp

lemma wf_tryte_range: "wf_tryte t \<Longrightarrow> - 9841 \<le> trits_value t \<and> trits_value t \<le> 9841"
  using trits_value_bound [of t 9] by (simp add: wf_tryte_def half_range_9 abs_le_iff)

lemma trits_of_value:
  "\<bar>n\<bar> \<le> half_range k \<Longrightarrow> trits_value (rev (trits_of k n)) = n"
proof (induction k arbitrary: n)
  case 0
  then show ?case by (simp add: trits_value_def)
next
  case (Suc k)
  define r where "r = (n + 1) mod 3 - 1"
  define q where "q = (n - r) div 3"
  have r: "r = - 1 \<or> r = 0 \<or> r = 1" unfolding r_def by presburger
  have n: "n = 3 * q + r" unfolding q_def r_def by presburger
  have "\<bar>q\<bar> \<le> half_range k" using Suc.prems r n by auto
  then have ih: "trits_value (rev (trits_of k q)) = q" by (rule Suc.IH)
  have step: "trits_of (Suc k) n = trit_of r # trits_of k q"
    by (simp add: Let_def r_def q_def)
  show ?case
    unfolding step using r n ih by (simp add: trits_value_snoc trit_val_trit_of)
qed

lemma value_trits_of:
  "length ds = k \<Longrightarrow> trits_of k (trits_value (rev ds)) = ds"
proof (induction ds arbitrary: k)
  case Nil
  then show ?case by simp
next
  case (Cons d ds)
  then obtain j where k: "k = Suc j" and len: "length ds = j" by (cases k) auto
  define v where "v = trits_value (rev ds)"
  have ih: "trits_of j v = ds" unfolding v_def using Cons.IH [OF len] .
  have r: "(3 * v + trit_val d + 1) mod 3 - 1 = trit_val d" by (cases d) simp_all
  have step: "trits_of (Suc j) (3 * v + trit_val d) = trit_of (trit_val d) # trits_of j v"
    by (simp add: Let_def r)
  show ?case
    unfolding k by (simp only: rev.simps trits_value_snoc v_def [symmetric] step ih trit_of_trit_val)
qed

lemma wf_tryte_of: "wf_tryte (tryte_of n)"
  by (simp add: tryte_of_def wf_tryte_def length_trits_of)

lemma value_tryte_of: "- 9841 \<le> n \<Longrightarrow> n \<le> 9841 \<Longrightarrow> trits_value (tryte_of n) = n"
  using trits_of_value [of n 9] by (simp add: tryte_of_def half_range_9)

lemma tryte_of_value: "wf_tryte t \<Longrightarrow> tryte_of (trits_value t) = t"
  using value_trits_of [of "rev t" 9] by (simp add: tryte_of_def wf_tryte_def)

lemma n2t_in: "- 9841 \<le> n \<Longrightarrow> n \<le> 9841 \<Longrightarrow> n2t n = Inr (tryte_of n)"
  by (simp add: n2t_def)

lemma t2n_n2t: "n2t n = Inr t \<Longrightarrow> trits_value t = n"
  by (auto simp: n2t_def value_tryte_of split: if_splits)

lemma n2t_wf: "n2t n = Inr t \<Longrightarrow> wf_tryte t"
  by (auto simp: n2t_def wf_tryte_of split: if_splits)

lemma n2t_t2n: "wf_tryte t \<Longrightarrow> n2t (trits_value t) = Inr t"
  using wf_tryte_range [of t] by (simp add: n2t_def tryte_of_value)

lemma n2t_in_range: "- 9841 \<le> n \<Longrightarrow> n \<le> 9841 \<Longrightarrow> \<exists>t. n2t n = Inr t \<and> wf_tryte t \<and> trits_value t = n"
  by (simp add: n2t_def wf_tryte_of value_tryte_of)

section \<open>Properties of Memory\<close>

text \<open>
  C10. Whatever is passed for the constructor's size parameter (a number, or nothing),
  the constructed Memory has exactly 19683 cells: the argument is ignored and the
  backing array always has \<open>TRYTE_NUM_VALUES\<close> entries.
\<close>

theorem Memory_constructor_ignores_size:
  "length (block (Memory_constructor size_arg)) = 19683
   \<and> Memory_constructor size_arg = Memory_constructor None"
  by (simp add: Memory_constructor_def TRYTE_NUM_VALUES_def)


lemma sint_int32: "- 9841 \<le> v \<Longrightarrow> v \<le> 9841 \<Longrightarrow> sint (word_of_int v :: 32 word) = v"
  by (simp add: sint_sbintrunc' signed_take_bit_int_eq_self)

lemma representable_range: "representable x \<Longrightarrow> - 9841 \<le> t2n x \<and> t2n x \<le> 9841"
  by (cases x) (simp_all add: representable_def wf_tryte_range)

lemma length_block_store: "length (block (store m v a)) = length (block m)"
  by (simp add: store_def int32array_set_def Let_def)

lemma load_store_same:
  assumes "length (block m) = 19683" and "representable a" and "representable v"
  shows "load u (store m v a) a = n2t (t2n v)"
proof -
  have a: "- 9841 \<le> t2n a \<and> t2n a \<le> 9841" using assms(2) by (rule representable_range)
  have v: "- 9841 \<le> t2n v \<and> t2n v \<le> 9841" using assms(3) by (rule representable_range)
  have i: "nat (t2n a + 9841) < length (block m)" using a assms(1) by linarith
  show ?thesis
    using a v i assms(1)
    by (simp add: load_def store_def int32array_get_def int32array_set_def Let_def sint_int32)
qed

lemma load_store_other:
  assumes "t2n b \<noteq> t2n a"
  shows "load u (store m v a) b = load u m b"
  using assms
  by (auto simp: load_def store_def int32array_get_def int32array_set_def Let_def nat_eq_iff)

text \<open>
  C5. In a Memory of 19683 cells, for every in-range address \<open>a\<close> and every
  representable value \<open>v\<close> (a well-formed word, or a number in the range of a word),
  \<open>store(v, a)\<close> followed by \<open>load(a)\<close> returns the word of \<open>v\<close> (\<open>v\<close> itself when
  \<open>v\<close> is a word), and \<open>load(b)\<close> at every in-range address \<open>b\<close> with another
  numeric value returns what it returned before the store.
\<close>

theorem store_then_load:
  assumes "length (block m) = TRYTE_NUM_VALUES" and "representable a" and "representable v"
  shows "(\<exists>t. load u (store m v a) a = Inr t \<and> wf_tryte t \<and> trits_value t = t2n v
            \<and> (\<forall>w. v = Word w \<longrightarrow> t = w))
         \<and> (\<forall>b. representable b \<longrightarrow> t2n b \<noteq> t2n a
               \<longrightarrow> load u (store m v a) b = load u m b)"
proof -
  have len: "length (block m) = 19683" using assms(1) by (simp add: TRYTE_NUM_VALUES_def)
  have same: "load u (store m v a) a = n2t (t2n v)"
    using len assms(2,3) by (rule load_store_same)
  obtain t where t: "n2t (t2n v) = Inr t" "wf_tryte t" "trits_value t = t2n v"
    using n2t_in_range [of "t2n v"] representable_range [OF assms(3)] by blast
  have "t = w" if "v = Word w" for w
  proof -
    have "wf_tryte w" using assms(3) that by (simp add: representable_def)
    then have "n2t (trits_value w) = Inr w" by (rule n2t_t2n)
    then show ?thesis using t(1) that by simp
  qed
  then show ?thesis using same t by (simp add: load_store_other)
qed

theorem store_then_load_witness:
  "length (block (Memory_constructor None)) = TRYTE_NUM_VALUES
   \<and> representable (Number 5)
   \<and> representable (Word [Zero, Zero, Zero, Zero, Zero, Zero, Zero, Pos, Neg])
   \<and> load (Inl TypeError)
         (store (Memory_constructor None)
            (Word [Zero, Zero, Zero, Zero, Zero, Zero, Zero, Pos, Neg]) (Number 5))
         (Number 5)
       = Inr [Zero, Zero, Zero, Zero, Zero, Zero, Zero, Pos, Neg]
   \<and> load (Inl TypeError)
         (store (Memory_constructor None)
            (Word [Zero, Zero, Zero, Zero, Zero, Zero, Zero, Pos, Neg]) (Number 5))
         (Number 6)
       = load (Inl TypeError) (Memory_constructor None) (Number 6)"
proof -
  have len: "length (block (Memory_constructor None)) = TRYTE_NUM_VALUES"
    by (simp add: Memory_constructor_def)
  have a: "representable (Number 5)" by (simp add: representable_def)
  have b: "representable (Number 6)" by (simp add: representable_def)
  have v: "representable (Word [Zero, Zero, Zero, Zero, Zero, Zero, Zero, Pos, Neg])"
    by (simp add: representable_def wf_tryte_def)
  show ?thesis
    using store_then_load [OF len a v, of "Inl TypeError"] len a b v by auto
qed

section \<open>Properties of the parser\<close>

lemma try_bind_Inr [simp]: "try_bind (Inr v) f = f v"
  by (simp add: try_bind_def)

lemma try_bind_Inl [simp]: "try_bind (Inl e) f = Inl e"
  by (simp add: try_bind_def)

lemma try_bind_eq_Inr: "try_bind r f = Inr y \<longleftrightarrow> (\<exists>v. r = Inr v \<and> f v = Inr y)"
  by (cases r) simp_all

lemma try_bind_eq_Inl: "try_bind r f = Inl e \<longleftrightarrow> r = Inl e \<or> (\<exists>v. r = Inr v \<and> f v = Inl e)"
  by (cases r) simp_all

lemma succeeds_Inr [simp]: "succeeds (Inr v)" and succeeds_Inl [simp]: "\<not> succeeds (Inl e)"
  by (simp_all add: succeeds_def)

lemma succeeds_iff: "succeeds r \<longleftrightarrow> (\<exists>v. r = Inr v)"
  by (cases r) simp_all

lemma isShort_False: "isShort v = False"
  by (simp add: isShort_def Let_def)

lemma some_n2t_in: "- 9841 \<le> n \<Longrightarrow> n \<le> 9841 \<Longrightarrow> some_n2t n = Inr (Some (tryte_of n))"
  by (simp add: some_n2t_def n2t_in)

lemma parseRegisterOperand_None:
  "parseRegisterOperand operand = Inr None \<longleftrightarrow>
     (case operand of None \<Rightarrow> True | Some s \<Rightarrow> s = [] \<or> toLowerCase (trim s) \<notin> set register_tokens)"
  by (simp add: parseRegisterOperand_def register_tokens_def some_n2t_in Let_def split: option.split)

lemma parseRegisterOperand_total: "\<exists>r. parseRegisterOperand operand = Inr r"
  by (simp add: parseRegisterOperand_def some_n2t_in Let_def split: option.split)

lemma unionParseYZ_total: "\<exists>r. unionParseYZ partial operand allowLabel = Inr r"
  using parseRegisterOperand_total [of operand]
  by (auto simp: unionParseYZ_def n2t_in isShort_False split: option.split)

lemma unionParseYZ_shape:
  assumes "unionParseYZ partial operand allowLabel = Inr (Some i)"
  shows "opcode i = opcode partial" and "x_op i = x_op partial"
    and "(z_op i \<noteq> None) = (addressingMode i = WORD_IMMEDIATE)"
    and "\<And>v. z_op i = Some v \<Longrightarrow> truthy v"
    and "addressingMode i \<noteq> SHORT_IMMEDIATE"
  using assms parseRegisterOperand_total [of operand]
  by (auto simp: unionParseYZ_def n2t_in isShort_False split: option.splits if_splits)

lemma expect_Some [simp]: "expect (Some v) msg = Inr v" and expect_None [simp]: "expect None msg = Inl (Error msg)"
  by (simp_all add: expect_def)

lemma parse_register_yz_shape:
  assumes "parse_register_yz c msg1 msg2 operands = Inr (i, rest)"
    and "- 9841 \<le> c" and "c \<le> 9841"
  shows "opcode i = tryte_of c"
    and "(z_op i \<noteq> None) = (addressingMode i = WORD_IMMEDIATE)"
    and "\<And>v. z_op i = Some v \<Longrightarrow> truthy v"
    and "addressingMode i \<noteq> SHORT_IMMEDIATE"
proof -
  obtain o1 r1 where s1: "shift operands = (o1, r1)" by (cases "shift operands")
  obtain o2 r2 where s2: "shift r1 = (o2, r2)" by (cases "shift r1")
  obtain reg where reg: "parseRegisterOperand o1 = Inr reg"
    using parseRegisterOperand_total by blast
  from assms obtain xr where xr: "reg = Some xr"
    by (cases reg) (simp_all add: parse_register_yz_def n2t_in s1 s2 reg)
  obtain q where q: "unionParseYZ \<lparr>opcode = tryte_of c, x_op = xr\<rparr> o2 False = Inr q"
    using unionParseYZ_total by blast
  from assms have qi: "q = Some i"
    by (cases q) (simp_all add: parse_register_yz_def n2t_in s1 s2 reg xr q)
  note sh = unionParseYZ_shape [OF q [unfolded qi]]
  show "opcode i = tryte_of c" using sh(1) by simp
  show "(z_op i \<noteq> None) = (addressingMode i = WORD_IMMEDIATE)" by (rule sh(3))
  show "\<And>v. z_op i = Some v \<Longrightarrow> truthy v" by (rule sh(4))
  show "addressingMode i \<noteq> SHORT_IMMEDIATE" by (rule sh(5))
qed

lemma parseInstruction_unknown:
  "toUpperCase mnemonic \<notin> set mnemonics \<Longrightarrow>
   parseInstruction mnemonic operands
     = Inl (Error (''unknown operation '' @ [CHR 0x27] @ mnemonic @ [CHR 0x27]))"
  by (simp add: parseInstruction_def mnemonics_def Let_def)

lemma parseInstruction_known:
  "parseInstruction mnemonic operands = Inr r \<Longrightarrow> toUpperCase mnemonic \<in> set mnemonics"
  using parseInstruction_unknown [of mnemonic operands] by auto

lemma parseInstruction_shape:
  assumes "parseInstruction mnemonic operands = Inr (i, rest)"
  shows "opcode i = tryte_of (parser_opcode (toUpperCase mnemonic))"
    and "(z_op i \<noteq> None) = (addressingMode i = WORD_IMMEDIATE)"
    and "\<And>v. z_op i = Some v \<Longrightarrow> truthy v"
    and "addressingMode i \<noteq> SHORT_IMMEDIATE"
proof -
  have known: "toUpperCase mnemonic \<in> set mnemonics" using assms by (rule parseInstruction_known)
  have all: "opcode i = tryte_of (parser_opcode (toUpperCase mnemonic))
      \<and> (z_op i \<noteq> None) = (addressingMode i = WORD_IMMEDIATE)
      \<and> (\<forall>v. z_op i = Some v \<longrightarrow> truthy v) \<and> addressingMode i \<noteq> SHORT_IMMEDIATE"
  proof (cases "toUpperCase mnemonic = ''NOP''")
    case True
    then show ?thesis using assms
      by (auto simp: parseInstruction_def n2t_in parser_opcode_def)
  next
    case nop: False
    show ?thesis
    proof (cases "toUpperCase mnemonic = ''JMP''")
      case True
      obtain o1 r1 where s1: "shift operands = (o1, r1)" by (cases "shift operands")
      obtain q where q: "unionParseYZ \<lparr>opcode = tryte_of 36, x_op = tryte_of 0\<rparr> o1 True = Inr q"
        using unionParseYZ_total by blast
      from assms True have qi: "q = Some i"
        by (cases q) (simp_all add: parseInstruction_def n2t_in s1 q)
      note sh = unionParseYZ_shape [OF q [unfolded qi]]
      show ?thesis using sh True by (simp add: parser_opcode_def)
    next
      case jmp: False
      obtain msg1 msg2 where
        p: "parse_register_yz (parser_opcode (toUpperCase mnemonic)) msg1 msg2 operands = Inr (i, rest)"
        using assms known nop jmp
        by (auto simp: parseInstruction_def mnemonics_def parser_opcode_def Let_def split: if_splits)
      have c: "- 9841 \<le> parser_opcode (toUpperCase mnemonic)"
        "parser_opcode (toUpperCase mnemonic) \<le> 9841"
        by (simp_all add: parser_opcode_def)
      note sh = parse_register_yz_shape [OF p c]
      show ?thesis using sh by simp
    qed
  qed
  show "opcode i = tryte_of (parser_opcode (toUpperCase mnemonic))" using all by simp
  show "(z_op i \<noteq> None) = (addressingMode i = WORD_IMMEDIATE)" using all by simp
  show "\<And>v. z_op i = Some v \<Longrightarrow> truthy v" using all by simp
  show "addressingMode i \<noteq> SHORT_IMMEDIATE" using all by simp
qed


section \<open>Properties of the passes\<close>

lemma s2t_zero: "s2t ''ooooooooo'' = Inr [Zero, Zero, Zero, Zero, Zero, Zero, Zero, Zero, Zero]"
  by (simp add: s2t_def)

lemma for_lines_append:
  "for_lines body (xs @ ys) st = try_bind (for_lines body xs st) (for_lines body ys)"
  by (induction xs arbitrary: st) (simp_all add: try_bind_def split: sum.split)

lemma pass1_append: "pass1 (xs @ ys) = try_bind (pass1 xs) (for_lines pass1_line ys)"
  by (simp add: pass1_def s2t_zero for_lines_append)

lemma pass1_line_parse_error:
  "\<not> is_label_line line \<Longrightarrow> parseInstructionParts line = mnemonic # operands \<Longrightarrow>
   parseInstruction mnemonic operands = Inl e \<Longrightarrow> pass1_line line st = Inl e"
  by (simp add: pass1_line_def)

lemma assemble_lines_parse_error:
  assumes "succeeds (pass1 pre)" and "\<not> is_label_line line"
    and "parseInstructionParts line = mnemonic # operands"
    and "parseInstruction mnemonic operands = Inl e"
  shows "assemble_lines pack (pre @ line # post) = Inl e"
proof -
  obtain s where s: "pass1 pre = Inr s" using assms(1) by (auto simp: succeeds_iff)
  have "pass1_line line s = Inl e" using assms(2-4) by (rule pass1_line_parse_error)
  then have "pass1 (pre @ line # post) = Inl e" by (simp add: pass1_append s)
  then show ?thesis by (simp add: assemble_lines_def)
qed

lemma parse_register_yz_operand1:
  assumes "case operands of [] \<Rightarrow> True
           | o1 # _ \<Rightarrow> o1 = [] \<or> toLowerCase (trim o1) \<notin> set register_tokens"
    and "- 9841 \<le> c" and "c \<le> 9841"
  shows "parse_register_yz c msg1 msg2 operands = Inl (Error msg1)"
proof -
  have "parseRegisterOperand (fst (shift operands)) = Inr None"
    using assms(1) by (cases operands) (simp_all add: parseRegisterOperand_None)
  then show ?thesis using assms(2,3)
    by (cases "shift operands") (simp add: parse_register_yz_def n2t_in)
qed

lemma parseInstruction_operand1:
  assumes "toUpperCase mnemonic \<in> set [''MOV'', ''ADD'', ''MUL'', ''DIV'', ''STA'', ''LDA'']"
    and "case operands of [] \<Rightarrow> True
         | o1 # _ \<Rightarrow> o1 = [] \<or> toLowerCase (trim o1) \<notin> set register_tokens"
  shows "\<exists>rest. parseInstruction mnemonic operands
           = Inl (Error (toUpperCase mnemonic @ '': operand 1'' @ rest))"
  using assms(1) parse_register_yz_operand1 [OF assms(2)]
  by (auto simp: parseInstruction_def)


lemma for_lines_take:
  assumes "for_lines body lines st = Inr st'"
  shows "\<exists>s. for_lines body (take k lines) st = Inr s \<and> for_lines body (drop k lines) s = Inr st'"
proof -
  have "for_lines body (take k lines @ drop k lines) st = Inr st'" using assms by simp
  then show ?thesis unfolding for_lines_append by (simp add: try_bind_eq_Inr)
qed

lemma assembleInstruction_second:
  assumes "assembleInstruction pack i label_table = Inr (data0, data1)"
  shows "(data1 \<noteq> None) = (addressingMode i = WORD_IMMEDIATE)"
  using assms
  by (auto simp: assembleInstruction_def try_bind_eq_Inr
           split: if_splits option.splits tryte_or_label.splits)

lemma pass1_line_label:
  "is_label_line line \<Longrightarrow> pass1_line line st = Inr st' \<Longrightarrow> p1_address st' = p1_address st"
  by (auto simp: pass1_line_def Let_def)

lemma pass1_line_instruction:
  assumes "\<not> is_label_line line" and "pass1_line line st = Inr st'"
  shows "\<exists>mnemonic operands i.
           parseInstructionParts line = mnemonic # operands
           \<and> parseInstruction mnemonic operands = Inr (i, [])
           \<and> st' = st\<lparr>p1_address :=
                 (if addressingMode i = WORD_IMMEDIATE
                  then alu_add (alu_add (p1_address st) (tryte_of 1)) (tryte_of 1)
                  else alu_add (p1_address st) (tryte_of 1))\<rparr>"
proof -
  obtain mnemonic operands where parts: "parseInstructionParts line = mnemonic # operands"
    using assms by (cases "parseInstructionParts line") (simp_all add: pass1_line_def)
  obtain i rest where p: "parseInstruction mnemonic operands = Inr (i, rest)"
    using assms parts
    by (cases "parseInstruction mnemonic operands") (auto simp: pass1_line_def)
  have rest: "rest = []" using assms parts p
    by (cases rest) (simp_all add: pass1_line_def)
  have z: "(case z_op i of None \<Rightarrow> False | Some v \<Rightarrow> truthy v) = (addressingMode i = WORD_IMMEDIATE)"
    using parseInstruction_shape(2,3) [OF p] by (cases "z_op i") auto
  have "st' = st\<lparr>p1_address :=
                 (if addressingMode i = WORD_IMMEDIATE
                  then alu_add (alu_add (p1_address st) (tryte_of 1)) (tryte_of 1)
                  else alu_add (p1_address st) (tryte_of 1))\<rparr>"
    using assms parts p rest z by (auto simp: pass1_line_def n2t_in Let_def)
  then show ?thesis using parts p rest by blast
qed

lemma pass2_line_label:
  "is_label_line line \<Longrightarrow> pass2_line pack label_table line st = Inr st' \<Longrightarrow> st' = st"
  by (simp add: pass2_line_def)

lemma pass2_line_instruction:
  assumes "\<not> is_label_line line" and "pass2_line pack label_table line st = Inr st'"
  shows "\<exists>mnemonic operands i rest data0 data1.
           parseInstructionParts line = mnemonic # operands
           \<and> parseInstruction mnemonic operands = Inr (i, rest)
           \<and> assembleInstruction pack i label_table = Inr (data0, data1)
           \<and> p2_address st' =
                 (if addressingMode i = WORD_IMMEDIATE
                  then alu_add (alu_add (p2_address st) (tryte_of 1)) (tryte_of 1)
                  else alu_add (p2_address st) (tryte_of 1))
           \<and> cart st' =
                 (case data1 of
                    None \<Rightarrow> store (cart st) (Word data0) (Word (p2_address st))
                  | Some second \<Rightarrow>
                      store (store (cart st) (Word data0) (Word (p2_address st)))
                        (Word second) (Word (alu_add (p2_address st) (tryte_of 1))))"
proof -
  obtain mnemonic operands where parts: "parseInstructionParts line = mnemonic # operands"
    using assms by (cases "parseInstructionParts line") (simp_all add: pass2_line_def)
  obtain i rest where p: "parseInstruction mnemonic operands = Inr (i, rest)"
    using assms parts
    by (cases "parseInstruction mnemonic operands") (auto simp: pass2_line_def)
  obtain data0 data1 where a: "assembleInstruction pack i label_table = Inr (data0, data1)"
    using assms parts p
    by (cases "assembleInstruction pack i label_table") (auto simp: pass2_line_def Let_def)
  note second = assembleInstruction_second [OF a]
  show ?thesis
  proof (cases data1)
    case None
    then show ?thesis using assms parts p a second
      by (auto simp: pass2_line_def n2t_in Let_def)
  next
    case (Some w)
    then show ?thesis using assms parts p a second
      by (auto simp: pass2_line_def n2t_in Let_def)
  qed
qed

lemma pass_line_agree:
  assumes "pass1_line line s1 = Inr s1'" and "pass2_line pack label_table line s2 = Inr s2'"
    and "p1_address s1 = p2_address s2"
  shows "p1_address s1' = p2_address s2'"
proof (cases "is_label_line line")
  case True
  then show ?thesis
    using assms pass1_line_label [OF True assms(1)] pass2_line_label [OF True assms(2)] by simp
next
  case False
  from pass1_line_instruction [OF False assms(1)] pass2_line_instruction [OF False assms(2)]
  show ?thesis using assms(3) by auto
qed

lemma for_lines_agree:
  assumes "for_lines pass1_line lines s1 = Inr s1'"
    and "for_lines (pass2_line pack label_table) lines s2 = Inr s2'"
    and "p1_address s1 = p2_address s2"
  shows "p1_address s1' = p2_address s2'"
  using assms
proof (induction lines arbitrary: s1 s2)
  case Nil
  then show ?case by simp
next
  case (Cons line lines)
  from Cons.prems(1) obtain t1 where t1: "pass1_line line s1 = Inr t1"
    "for_lines pass1_line lines t1 = Inr s1'" by (auto simp: try_bind_eq_Inr)
  from Cons.prems(2) obtain t2 where t2: "pass2_line pack label_table line s2 = Inr t2"
    "for_lines (pass2_line pack label_table) lines t2 = Inr s2'" by (auto simp: try_bind_eq_Inr)
  have "p1_address t1 = p2_address t2" using t1(1) t2(1) Cons.prems(3) by (rule pass_line_agree)
  with t1(2) t2(2) show ?case by (rule Cons.IH)
qed

lemma wrap_tryte_range: "- 9841 \<le> wrap_tryte n \<and> wrap_tryte n \<le> 9841"
proof -
  have "0 \<le> (n + 9841) mod 19683" and "(n + 9841) mod 19683 < 19683" by simp_all
  then show ?thesis unfolding wrap_tryte_def by linarith
qed

lemma wrap_tryte_succ:
  assumes "- 9841 \<le> v" and "v \<le> 9841"
  shows "wrap_tryte (v + 1) \<noteq> v"
proof (cases "v = 9841")
  case True
  then show ?thesis by (simp add: wrap_tryte_def)
next
  case False
  then have "(v + 1 + 9841) mod 19683 = v + 1 + 9841"
    using assms by (intro mod_pos_pos_trivial) linarith+
  then show ?thesis by (simp add: wrap_tryte_def)
qed

lemma wf_alu_add: "wf_tryte (alu_add a b)"
  by (simp add: alu_add_def wf_tryte_of)

lemma value_alu_add_one:
  "trits_value (alu_add a (tryte_of 1)) = wrap_tryte (trits_value a + 1)"
  using wrap_tryte_range [of "trits_value a + 1"]
  by (simp add: alu_add_def value_tryte_of)

lemma pass2_line_wf:
  assumes "pass2_line pack label_table line st = Inr st'" and "wf_tryte (p2_address st)"
  shows "wf_tryte (p2_address st')"
proof (cases "is_label_line line")
  case True
  then show ?thesis using assms pass2_line_label by blast
next
  case False
  from pass2_line_instruction [OF False assms(1)] show ?thesis
    by (auto simp: wf_alu_add)
qed

lemma pass2_line_length:
  assumes "pass2_line pack label_table line st = Inr st'"
  shows "length (block (cart st')) = length (block (cart st))"
proof (cases "is_label_line line")
  case True
  then show ?thesis using assms pass2_line_label by blast
next
  case False
  from pass2_line_instruction [OF False assms(1)] show ?thesis
    by (auto simp: length_block_store split: option.splits)
qed

lemma for_lines_pass2_inv:
  assumes "for_lines (pass2_line pack label_table) lines st = Inr st'"
    and "wf_tryte (p2_address st)" and "length (block (cart st)) = 19683"
  shows "wf_tryte (p2_address st') \<and> length (block (cart st')) = 19683"
  using assms
proof (induction lines arbitrary: st)
  case Nil
  then show ?case by simp
next
  case (Cons line lines)
  from Cons.prems(1) obtain t where t: "pass2_line pack label_table line st = Inr t"
    "for_lines (pass2_line pack label_table) lines t = Inr st'" by (auto simp: try_bind_eq_Inr)
  have "wf_tryte (p2_address t)" using t(1) Cons.prems(2) by (rule pass2_line_wf)
  moreover have "length (block (cart t)) = 19683"
    using pass2_line_length [OF t(1)] Cons.prems(3) by simp
  ultimately show ?case using t(2) Cons.IH by blast
qed

lemma block_store_same:
  assumes "wf_tryte a" and "length (block m) = 19683"
  shows "block (store m v (Word a)) ! nat (trits_value a + 9841) = word_of_int (t2n v)"
proof -
  have "- 9841 \<le> trits_value a \<and> trits_value a \<le> 9841" using assms(1) by (rule wf_tryte_range)
  then have "nat (trits_value a + 9841) < length (block m)" using assms(2) by linarith
  then show ?thesis
    using \<open>- 9841 \<le> trits_value a \<and> trits_value a \<le> 9841\<close> assms(2)
    by (simp add: store_def int32array_set_def Let_def)
qed

lemma block_store_other:
  assumes "wf_tryte a" and "wf_tryte b" and "trits_value b \<noteq> trits_value a"
  shows "block (store m v (Word b)) ! nat (trits_value a + 9841) = block m ! nat (trits_value a + 9841)"
proof -
  have a: "- 9841 \<le> trits_value a \<and> trits_value a \<le> 9841" using assms(1) by (rule wf_tryte_range)
  have b: "- 9841 \<le> trits_value b \<and> trits_value b \<le> 9841" using assms(2) by (rule wf_tryte_range)
  have "nat (trits_value b + 9841) \<noteq> nat (trits_value a + 9841)" using a b assms(3) by linarith
  then show ?thesis by (simp add: store_def int32array_set_def Let_def)
qed

lemma pass2_line_first_word:
  assumes "\<not> is_label_line line" and "pass2_line pack label_table line st = Inr st'"
    and "wf_tryte (p2_address st)" and "length (block (cart st)) = 19683"
  shows "\<exists>mnemonic operands i rest data0 data1.
           parseInstructionParts line = mnemonic # operands
           \<and> parseInstruction mnemonic operands = Inr (i, rest)
           \<and> assembleInstruction pack i label_table = Inr (data0, data1)
           \<and> block (cart st') ! nat (t2n (Word (p2_address st)) + 9841) = word_of_int (t2n (Word data0))
           \<and> p2_address st' =
                 (if data1 = None then alu_add (p2_address st) (tryte_of 1)
                  else alu_add (alu_add (p2_address st) (tryte_of 1)) (tryte_of 1))"
proof -
  from pass2_line_instruction [OF assms(1,2)]
  obtain mnemonic operands i rest data0 data1 where
    parts: "parseInstructionParts line = mnemonic # operands"
    and p: "parseInstruction mnemonic operands = Inr (i, rest)"
    and a: "assembleInstruction pack i label_table = Inr (data0, data1)"
    and addr: "p2_address st' =
                 (if addressingMode i = WORD_IMMEDIATE
                  then alu_add (alu_add (p2_address st) (tryte_of 1)) (tryte_of 1)
                  else alu_add (p2_address st) (tryte_of 1))"
    and c: "cart st' =
                 (case data1 of
                    None \<Rightarrow> store (cart st) (Word data0) (Word (p2_address st))
                  | Some second \<Rightarrow>
                      store (store (cart st) (Word data0) (Word (p2_address st)))
                        (Word second) (Word (alu_add (p2_address st) (tryte_of 1))))"
    by blast
  have first: "block (store (cart st) (Word data0) (Word (p2_address st)))
                 ! nat (trits_value (p2_address st) + 9841) = word_of_int (t2n (Word data0))"
    using assms(3,4) by (rule block_store_same)
  have neq: "trits_value (alu_add (p2_address st) (tryte_of 1)) \<noteq> trits_value (p2_address st)"
    using wf_tryte_range [OF assms(3)] by (simp add: value_alu_add_one wrap_tryte_succ)
  have cell: "block (cart st') ! nat (t2n (Word (p2_address st)) + 9841) = word_of_int (t2n (Word data0))"
  proof (cases data1)
    case None
    then show ?thesis using c first by simp
  next
    case (Some second)
    then show ?thesis
      using c first block_store_other [OF assms(3) wf_alu_add neq] by simp
  qed
  have "p2_address st' =
                 (if data1 = None then alu_add (p2_address st) (tryte_of 1)
                  else alu_add (alu_add (p2_address st) (tryte_of 1)) (tryte_of 1))"
    using addr assembleInstruction_second [OF a] by auto
  then show ?thesis using parts p a cell by blast
qed

lemma wf_zero: "wf_tryte [Zero, Zero, Zero, Zero, Zero, Zero, Zero, Zero, Zero]"
  by (simp add: wf_tryte_def)

lemma assemble_lines_Inr:
  "assemble_lines pack lines = Inr r \<longleftrightarrow>
     (\<exists>s1 s2. pass1 lines = Inr s1 \<and> pass2 pack (p1_labels s1) lines = Inr s2
        \<and> r = \<lparr>mem = cart s2,
                debug = \<lparr>labels = p1_labels s1, instructions = p2_instructions s2\<rparr>,
                warnings = p1_console s1\<rparr>)"
  by (auto simp: assemble_lines_def try_bind_eq_Inr)

subsection \<open>When assembly succeeds\<close>

lemma label_line_iff: "is_label_line line \<and> tl line = name \<longleftrightarrow> line = CHR ''.'' # name"
  by (cases line) (auto simp: is_label_line_def)

lemma pass1_line_succeeds_iff:
  "succeeds (pass1_line line st) \<longleftrightarrow>
     is_label_line line
     \<or> (\<exists>mnemonic operands i. parseInstructionParts line = mnemonic # operands
            \<and> parseInstruction mnemonic operands = Inr (i, []))"
proof (cases "is_label_line line")
  case True
  then show ?thesis by (simp add: pass1_line_def Let_def)
next
  case False
  show ?thesis
  proof
    assume "succeeds (pass1_line line st)"
    then obtain st' where "pass1_line line st = Inr st'" by (auto simp: succeeds_iff)
    from pass1_line_instruction [OF False this] show "is_label_line line
     \<or> (\<exists>mnemonic operands i. parseInstructionParts line = mnemonic # operands
            \<and> parseInstruction mnemonic operands = Inr (i, []))" by blast
  next
    assume "is_label_line line
     \<or> (\<exists>mnemonic operands i. parseInstructionParts line = mnemonic # operands
            \<and> parseInstruction mnemonic operands = Inr (i, []))"
    then obtain mnemonic operands i where "parseInstructionParts line = mnemonic # operands"
      "parseInstruction mnemonic operands = Inr (i, [])" using False by blast
    then show "succeeds (pass1_line line st)"
      using False by (simp add: pass1_line_def n2t_in Let_def)
  qed
qed

lemma pass1_line_succeeds_indep:
  "succeeds (pass1_line line st) = succeeds (pass1_line line st')"
  by (simp add: pass1_line_succeeds_iff)

lemma succeeds_try_bind:
  "succeeds (try_bind r f) \<longleftrightarrow> (\<exists>v. r = Inr v \<and> succeeds (f v))"
  by (cases r) simp_all

lemma for_lines_succeeds:
  assumes indep: "\<And>l s s'. succeeds (body l s) = succeeds (body l s')"
  shows "succeeds (for_lines body lines st) \<longleftrightarrow> (\<forall>l \<in> set lines. succeeds (body l st))"
proof (induction lines arbitrary: st)
  case Nil
  then show ?case by simp
next
  case (Cons line lines)
  show ?case
  proof (cases "body line st")
    case (Inl e)
    then show ?thesis by simp
  next
    case (Inr t)
    have "succeeds (for_lines body lines t) \<longleftrightarrow> (\<forall>l \<in> set lines. succeeds (body l t))"
      by (rule Cons.IH)
    also have "\<dots> \<longleftrightarrow> (\<forall>l \<in> set lines. succeeds (body l st))"
      using indep [of _ t st] by simp
    finally show ?thesis using Inr by simp
  qed
qed

lemma for_lines_pass1_succeeds:
  "succeeds (for_lines pass1_line lines st) \<longleftrightarrow> (\<forall>l \<in> set lines. succeeds (pass1_line l st))"
  by (rule for_lines_succeeds) (rule pass1_line_succeeds_indep)

lemma assembleInstruction_succeeds_cong:
  assumes "\<And>n. (L n \<noteq> None) = (L' n \<noteq> None)"
  shows "succeeds (assembleInstruction pack i L) = succeeds (assembleInstruction pack i L')"
proof -
  have "succeeds (case L n of None \<Rightarrow> Inl UndeclaredLabelError | Some a \<Rightarrow> Inr (first, Some a))
      = succeeds (case L' n of None \<Rightarrow> Inl UndeclaredLabelError | Some a \<Rightarrow> Inr (first, Some a))"
    for n and first :: tryte
    using assms [of n] by (cases "L n"; cases "L' n") auto
  then show ?thesis
    by (simp add: assembleInstruction_def succeeds_try_bind
             split: option.split tryte_or_label.split)
qed

lemma pass2_line_succeeds_iff:
  "succeeds (pass2_line pack L line st) \<longleftrightarrow>
     is_label_line line
     \<or> (\<exists>mnemonic operands i rest. parseInstructionParts line = mnemonic # operands
            \<and> parseInstruction mnemonic operands = Inr (i, rest)
            \<and> succeeds (assembleInstruction pack i L))"
proof (cases "is_label_line line")
  case True
  then show ?thesis by (simp add: pass2_line_def)
next
  case False
  show ?thesis
  proof
    assume "succeeds (pass2_line pack L line st)"
    then obtain st' where "pass2_line pack L line st = Inr st'" by (auto simp: succeeds_iff)
    from pass2_line_instruction [OF False this]
    show "is_label_line line
     \<or> (\<exists>mnemonic operands i rest. parseInstructionParts line = mnemonic # operands
            \<and> parseInstruction mnemonic operands = Inr (i, rest)
            \<and> succeeds (assembleInstruction pack i L))" by force
  next
    assume "is_label_line line
     \<or> (\<exists>mnemonic operands i rest. parseInstructionParts line = mnemonic # operands
            \<and> parseInstruction mnemonic operands = Inr (i, rest)
            \<and> succeeds (assembleInstruction pack i L))"
    then obtain mnemonic operands i rest d where "parseInstructionParts line = mnemonic # operands"
      "parseInstruction mnemonic operands = Inr (i, rest)"
      "assembleInstruction pack i L = Inr d" using False by (auto simp: succeeds_iff)
    then show "succeeds (pass2_line pack L line st)"
      using False by (cases d) (simp add: pass2_line_def n2t_in Let_def split: option.split)
  qed
qed

lemma pass2_line_succeeds_cong:
  assumes "\<And>n. (L n \<noteq> None) = (L' n \<noteq> None)"
  shows "succeeds (pass2_line pack L line st) = succeeds (pass2_line pack L' line st')"
  using assembleInstruction_succeeds_cong [OF assms]
  by (simp add: pass2_line_succeeds_iff)

lemma for_lines_pass2_succeeds:
  "succeeds (for_lines (pass2_line pack L) lines st)
     \<longleftrightarrow> (\<forall>l \<in> set lines. succeeds (pass2_line pack L l st))"
  by (rule for_lines_succeeds) (rule pass2_line_succeeds_cong, simp)

lemma pass1_line_labels:
  assumes "pass1_line line st = Inr st'"
  shows "p1_labels st' n =
           (if line = CHR ''.'' # n then Some (p1_address st) else p1_labels st n)"
proof (cases "is_label_line line")
  case True
  then show ?thesis
    using assms label_line_iff [of line n]
    by (auto simp: pass1_line_def Let_def clone_def)
next
  case False
  from pass1_line_instruction [OF False assms] obtain a where "st' = st\<lparr>p1_address := a\<rparr>"
    by blast
  moreover have "line \<noteq> CHR ''.'' # n" using False by (auto simp: is_label_line_def)
  ultimately show ?thesis by simp
qed

lemma for_lines_pass1_declared:
  assumes "for_lines pass1_line lines st = Inr st'"
  shows "(p1_labels st' n \<noteq> None) = (p1_labels st n \<noteq> None \<or> CHR ''.'' # n \<in> set lines)"
  using assms
proof (induction lines arbitrary: st)
  case Nil
  then show ?case by simp
next
  case (Cons line lines)
  from Cons.prems obtain t where t: "pass1_line line st = Inr t"
    "for_lines pass1_line lines t = Inr st'" by (auto simp: try_bind_eq_Inr)
  show ?case
    using Cons.IH [OF t(2)] pass1_line_labels [OF t(1), of n] by auto
qed

lemma for_lines_pass1_undeclared:
  assumes "for_lines pass1_line lines st = Inr st'" and "CHR ''.'' # n \<notin> set lines"
  shows "p1_labels st' n = p1_labels st n"
  using assms
proof (induction lines arbitrary: st)
  case Nil
  then show ?case by simp
next
  case (Cons line lines)
  from Cons.prems obtain t where t: "pass1_line line st = Inr t"
    "for_lines pass1_line lines t = Inr st'" by (auto simp: try_bind_eq_Inr)
  show ?case
    using Cons.IH [OF t(2)] Cons.prems(2) pass1_line_labels [OF t(1), of n] by auto
qed

lemma pass1_declared:
  assumes "pass1 lines = Inr s"
  shows "(p1_labels s n \<noteq> None) = (CHR ''.'' # n \<in> set lines)"
  using for_lines_pass1_declared [of lines _ s n] assms
  by (simp add: pass1_def s2t_zero)

lemma assemble_lines_succeeds_iff:
  "succeeds (assemble_lines pack lines) \<longleftrightarrow>
     (\<forall>l \<in> set lines. succeeds (pass1_line l s)
        \<and> succeeds (pass2_line pack (\<lambda>n. if CHR ''.'' # n \<in> set lines then Some [] else None) l t))"
proof -
  let ?D = "\<lambda>n. if CHR ''.'' # n \<in> set lines then Some [] else None"
  have one: "succeeds (pass1 lines) \<longleftrightarrow> (\<forall>l \<in> set lines. succeeds (pass1_line l s))"
    using pass1_line_succeeds_indep by (auto simp: pass1_def s2t_zero for_lines_pass1_succeeds)
  have two: "succeeds (pass2 pack (p1_labels s1) lines)
               \<longleftrightarrow> (\<forall>l \<in> set lines. succeeds (pass2_line pack ?D l t))"
    if "pass1 lines = Inr s1" for s1
  proof -
    have "(p1_labels s1 n \<noteq> None) = (?D n \<noteq> None)" for n
      using pass1_declared [OF that, of n] by simp
    then have "succeeds (pass2_line pack (p1_labels s1) l u) = succeeds (pass2_line pack ?D l t)"
      for l u by (rule pass2_line_succeeds_cong)
    then show ?thesis by (simp add: pass2_def s2t_zero for_lines_pass2_succeeds)
  qed
  show ?thesis
  proof (cases "pass1 lines")
    case (Inl e)
    then show ?thesis using one by (auto simp: assemble_lines_def)
  next
    case (Inr s1)
    have "succeeds (assemble_lines pack lines) = succeeds (pass2 pack (p1_labels s1) lines)"
      by (cases "pass2 pack (p1_labels s1) lines") (simp_all add: assemble_lines_def Inr)
    then show ?thesis using one two [OF Inr] Inr by auto
  qed
qed

lemma pass1_last_declaration:
  assumes "pass1 (xs @ (CHR ''.'' # n) # ys) = Inr s" and "CHR ''.'' # n \<notin> set ys"
  shows "\<exists>t. pass1 xs = Inr t \<and> p1_labels s n = Some (p1_address t)"
proof -
  from assms(1) obtain t u where t: "pass1 xs = Inr t"
    and u: "pass1_line (CHR ''.'' # n) t = Inr u"
    and s: "for_lines pass1_line ys u = Inr s"
    by (auto simp: pass1_append try_bind_eq_Inr)
  have "p1_labels u n = Some (p1_address t)" using pass1_line_labels [OF u, of n] by simp
  then have "p1_labels s n = Some (p1_address t)"
    using for_lines_pass1_undeclared [OF s assms(2)] by simp
  then show ?thesis using t by blast
qed

lemma pass1_line_console:
  assumes "pass1_line line st = Inr st'"
  shows "set (p1_console st) \<subseteq> set (p1_console st')"
proof (cases "is_label_line line")
  case True
  then show ?thesis using assms by (auto simp: pass1_line_def Let_def)
next
  case False
  from pass1_line_instruction [OF False assms] show ?thesis by auto
qed

lemma for_lines_pass1_console:
  assumes "for_lines pass1_line lines st = Inr st'"
  shows "set (p1_console st) \<subseteq> set (p1_console st')"
  using assms
proof (induction lines arbitrary: st)
  case Nil
  then show ?case by simp
next
  case (Cons line lines)
  from Cons.prems obtain t where t: "pass1_line line st = Inr t"
    "for_lines pass1_line lines t = Inr st'" by (auto simp: try_bind_eq_Inr)
  show ?case using pass1_line_console [OF t(1)] Cons.IH [OF t(2)] by blast
qed

lemma pass1_redeclared_warning:
  assumes "pass1 (xs @ (CHR ''.'' # n) # ys) = Inr s" and "CHR ''.'' # n \<in> set xs"
  shows "[''label redeclared:'', n] \<in> set (p1_console s)"
proof -
  from assms(1) obtain t u where t: "pass1 xs = Inr t"
    and u: "pass1_line (CHR ''.'' # n) t = Inr u"
    and s: "for_lines pass1_line ys u = Inr s"
    by (auto simp: pass1_append try_bind_eq_Inr)
  have "p1_labels t n \<noteq> None" using pass1_declared [OF t, of n] assms(2) by simp
  then have "[''label redeclared:'', n] \<in> set (p1_console u)"
    using u by (auto simp: pass1_line_def is_label_line_def Let_def)
  then show ?thesis using for_lines_pass1_console [OF s] by blast
qed

subsection \<open>The loops on the object store\<close>

lemma pass1_state_eta:
  "\<lparr>p1_address = p1_address st, p1_labels = p1_labels st, p1_console = p1_console st\<rparr> = st"
  by (cases st) simp

lemma for_lines_pass1_heap:
  assumes "label_maps h l = Some L"
  shows "case for_lines pass1_line lines \<lparr>p1_address = a, p1_labels = L, p1_console = c\<rparr> of
           Inl e \<Rightarrow> \<exists>L'. for_lines_heap (pass1_line_heap l) lines (a, c) h
                         = (Inl e, h\<lparr>label_maps := (label_maps h)(l \<mapsto> L')\<rparr>)
         | Inr st \<Rightarrow> for_lines_heap (pass1_line_heap l) lines (a, c) h
                      = (Inr (p1_address st, p1_console st),
                         h\<lparr>label_maps := (label_maps h)(l \<mapsto> p1_labels st)\<rparr>)"
  using assms
proof (induction lines arbitrary: a c L h)
  case Nil
  have "h\<lparr>label_maps := (label_maps h)(l \<mapsto> L)\<rparr> = h"
    using Nil by (simp add: fun_upd_idem)
  then show ?case by simp
next
  case (Cons line lines)
  show ?case
  proof (cases "pass1_line line \<lparr>p1_address = a, p1_labels = L, p1_console = c\<rparr>")
    case (Inl e)
    have "h\<lparr>label_maps := (label_maps h)(l \<mapsto> L)\<rparr> = h"
      using Cons.prems by (simp add: fun_upd_idem)
    then have "for_lines_heap (pass1_line_heap l) (line # lines) (a, c) h
        = (Inl e, h\<lparr>label_maps := (label_maps h)(l \<mapsto> L)\<rparr>)"
      using Inl Cons.prems by (simp add: pass1_line_heap_def)
    then show ?thesis using Inl by auto
  next
    case (Inr st')
    define h' where "h' = h\<lparr>label_maps := (label_maps h)(l \<mapsto> p1_labels st')\<rparr>"
    have l': "label_maps h' l = Some (p1_labels st')" by (simp add: h'_def)
    have step: "pass1_line_heap l line (a, c) h = (Inr (p1_address st', p1_console st'), h')"
      using Inr Cons.prems by (simp add: pass1_line_heap_def h'_def)
    have upd: "h'\<lparr>label_maps := (label_maps h')(l \<mapsto> X)\<rparr> = h\<lparr>label_maps := (label_maps h)(l \<mapsto> X)\<rparr>"
      for X by (simp add: h'_def)
    have whole: "for_lines pass1_line (line # lines) \<lparr>p1_address = a, p1_labels = L, p1_console = c\<rparr>
        = for_lines pass1_line lines st'" using Inr by simp
    have heap: "for_lines_heap (pass1_line_heap l) (line # lines) (a, c) h
        = for_lines_heap (pass1_line_heap l) lines (p1_address st', p1_console st') h'"
      by (simp add: step)
    have ih: "case for_lines pass1_line lines st' of
           Inl e \<Rightarrow> \<exists>L'. for_lines_heap (pass1_line_heap l) lines (p1_address st', p1_console st') h'
                         = (Inl e, h'\<lparr>label_maps := (label_maps h')(l \<mapsto> L')\<rparr>)
         | Inr st \<Rightarrow> for_lines_heap (pass1_line_heap l) lines (p1_address st', p1_console st') h'
                      = (Inr (p1_address st, p1_console st),
                         h'\<lparr>label_maps := (label_maps h')(l \<mapsto> p1_labels st)\<rparr>)"
      using Cons.IH [OF l', of "p1_address st'" "p1_console st'"] unfolding pass1_state_eta .
    show ?thesis
      unfolding whole heap using ih unfolding upd .
  qed
qed


lemma pass2_state_eta:
  "\<lparr>p2_address = p2_address st, cart = cart st, p2_instructions = p2_instructions st\<rparr> = st"
  by (cases st) simp

lemma for_lines_pass2_heap:
  assumes "memories h c = Some m" and "label_maps h l = Some L"
  shows "case for_lines (pass2_line pack L) lines
                \<lparr>p2_address = a, cart = m, p2_instructions = ins\<rparr> of
           Inl e \<Rightarrow> \<exists>m'. for_lines_heap (pass2_line_heap pack c l) lines (a, ins) h
                         = (Inl e, h\<lparr>memories := (memories h)(c \<mapsto> m')\<rparr>)
         | Inr st \<Rightarrow> for_lines_heap (pass2_line_heap pack c l) lines (a, ins) h
                      = (Inr (p2_address st, p2_instructions st),
                         h\<lparr>memories := (memories h)(c \<mapsto> cart st)\<rparr>)"
  using assms
proof (induction lines arbitrary: a ins m h)
  case Nil
  have "h\<lparr>memories := (memories h)(c \<mapsto> m)\<rparr> = h"
    using Nil by (simp add: fun_upd_idem)
  then show ?case by simp
next
  case (Cons line lines)
  show ?case
  proof (cases "pass2_line pack L line \<lparr>p2_address = a, cart = m, p2_instructions = ins\<rparr>")
    case (Inl e)
    have "h\<lparr>memories := (memories h)(c \<mapsto> m)\<rparr> = h"
      using Cons.prems by (simp add: fun_upd_idem)
    then have "for_lines_heap (pass2_line_heap pack c l) (line # lines) (a, ins) h
        = (Inl e, h\<lparr>memories := (memories h)(c \<mapsto> m)\<rparr>)"
      using Inl Cons.prems by (simp add: pass2_line_heap_def)
    then show ?thesis using Inl by auto
  next
    case (Inr st')
    define h' where "h' = h\<lparr>memories := (memories h)(c \<mapsto> cart st')\<rparr>"
    have c': "memories h' c = Some (cart st')" by (simp add: h'_def)
    have l': "label_maps h' l = Some L" using Cons.prems by (simp add: h'_def)
    have step: "pass2_line_heap pack c l line (a, ins) h
                  = (Inr (p2_address st', p2_instructions st'), h')"
      using Inr Cons.prems by (simp add: pass2_line_heap_def h'_def)
    have upd: "h'\<lparr>memories := (memories h')(c \<mapsto> X)\<rparr> = h\<lparr>memories := (memories h)(c \<mapsto> X)\<rparr>"
      for X by (simp add: h'_def)
    have whole: "for_lines (pass2_line pack L) (line # lines)
                   \<lparr>p2_address = a, cart = m, p2_instructions = ins\<rparr>
        = for_lines (pass2_line pack L) lines st'" using Inr by simp
    have heap: "for_lines_heap (pass2_line_heap pack c l) (line # lines) (a, ins) h
        = for_lines_heap (pass2_line_heap pack c l) lines (p2_address st', p2_instructions st') h'"
      by (simp add: step)
    have ih: "case for_lines (pass2_line pack L) lines st' of
           Inl e \<Rightarrow> \<exists>m'. for_lines_heap (pass2_line_heap pack c l) lines
                            (p2_address st', p2_instructions st') h'
                         = (Inl e, h'\<lparr>memories := (memories h')(c \<mapsto> m')\<rparr>)
         | Inr st \<Rightarrow> for_lines_heap (pass2_line_heap pack c l) lines
                            (p2_address st', p2_instructions st') h'
                      = (Inr (p2_address st, p2_instructions st),
                         h'\<lparr>memories := (memories h')(c \<mapsto> cart st)\<rparr>)"
      using Cons.IH [OF c' l', of "p2_address st'" "p2_instructions st'"]
      unfolding pass2_state_eta .
    show ?thesis
      unfolding whole heap using ih unfolding upd .
  qed
qed

lemma assemble_heap_eq:
  "case assemble pack input of
     Inl e \<Rightarrow> \<exists>m label_table. assemble_heap pack input h = (Inl e, allocated h m label_table)
   | Inr r \<Rightarrow> assemble_heap pack input h
       = (Inr \<lparr>mem_ref = next_ref h, labels_ref = Suc (next_ref h),
               instructions_of = instructions (debug r), warnings_of = warnings r\<rparr>,
          allocated h (mem r) (labels (debug r)))"
proof -
  define lines where "lines = source_lines input"
  define z where "z = [Zero, Zero, Zero, Zero, Zero, Zero, Zero, Zero, Zero]"
  define c where "c = next_ref h"
  define l where "l = Suc (next_ref h)"
  define h2 where "h2 = allocated h (Memory_constructor None) Map.empty"
  have alloc: "new_Memory h = (c, h\<lparr>memories := (memories h)(c \<mapsto> Memory_constructor None),
        next_ref := Suc c\<rparr>)" by (simp add: new_Memory_def c_def)
  have alloc2: "new_Map (h\<lparr>memories := (memories h)(c \<mapsto> Memory_constructor None),
        next_ref := Suc c\<rparr>) = (l, h2)"
    by (simp add: new_Map_def c_def l_def h2_def allocated_def)
  have hc: "memories h2 c = Some (Memory_constructor None)"
    and hl: "label_maps h2 l = Some Map.empty"
    by (simp_all add: h2_def allocated_def c_def l_def)
  have updl: "h2\<lparr>label_maps := (label_maps h2)(l \<mapsto> X)\<rparr> = allocated h (Memory_constructor None) X"
    for X by (simp add: h2_def allocated_def l_def)
  have updc: "(allocated h (Memory_constructor None) X)\<lparr>memories :=
       (memories (allocated h (Memory_constructor None) X))(c \<mapsto> Y)\<rparr> = allocated h Y X"
    for X Y by (simp add: allocated_def c_def)
  have unfold: "assemble_heap pack input h =
      (case for_lines_heap (pass1_line_heap l) lines (z, []) h2 of
             (Inl e, h3) \<Rightarrow> (Inl e, h3)
           | (Inr (a1, console), h3) \<Rightarrow>
                    (case for_lines_heap (pass2_line_heap pack c l) lines (z, Map.empty) h3 of
                       (Inl e, h4) \<Rightarrow> (Inl e, h4)
                     | (Inr (a2, instrs), h4) \<Rightarrow>
                         (Inr \<lparr>mem_ref = c, labels_ref = l,
                               instructions_of = instrs, warnings_of = console\<rparr>, h4)))"
    unfolding lines_def z_def
    by (simp add: assemble_heap_def alloc alloc2 s2t_zero Let_def split: prod.split sum.split)
  have pure: "assemble pack input =
      try_bind (for_lines pass1_line lines \<lparr>p1_address = z, p1_labels = Map.empty, p1_console = []\<rparr>)
        (\<lambda>s1. try_bind (for_lines (pass2_line pack (p1_labels s1)) lines
                   \<lparr>p2_address = z, cart = Memory_constructor None, p2_instructions = Map.empty\<rparr>)
          (\<lambda>s2. Inr \<lparr>mem = cart s2,
              debug = \<lparr>labels = p1_labels s1, instructions = p2_instructions s2\<rparr>,
              warnings = p1_console s1\<rparr>))"
    by (simp add: assemble_def assemble_lines_def pass1_def pass2_def s2t_zero lines_def z_def)
  note one = for_lines_pass1_heap [OF hl, of lines z "[]"]
  show ?thesis
  proof (cases "for_lines pass1_line lines \<lparr>p1_address = z, p1_labels = Map.empty, p1_console = []\<rparr>")
    case (Inl e)
    with one obtain L' where "for_lines_heap (pass1_line_heap l) lines (z, []) h2
        = (Inl e, h2\<lparr>label_maps := (label_maps h2)(l \<mapsto> L')\<rparr>)" by auto
    then have "assemble_heap pack input h = (Inl e, allocated h (Memory_constructor None) L')"
      by (simp add: unfold updl)
    moreover have "assemble pack input = Inl e" by (simp add: pure Inl)
    ultimately show ?thesis by auto
  next
    case (Inr s1)
    define h3 where "h3 = allocated h (Memory_constructor None) (p1_labels s1)"
    from one Inr have r1: "for_lines_heap (pass1_line_heap l) lines (z, []) h2
        = (Inr (p1_address s1, p1_console s1), h3)" by (simp add: updl h3_def)
    have h3c: "memories h3 c = Some (Memory_constructor None)"
      and h3l: "label_maps h3 l = Some (p1_labels s1)"
      by (simp_all add: h3_def allocated_def c_def l_def)
    note two = for_lines_pass2_heap [OF h3c h3l, of pack lines z Map.empty]
    show ?thesis
    proof (cases "for_lines (pass2_line pack (p1_labels s1)) lines
                   \<lparr>p2_address = z, cart = Memory_constructor None, p2_instructions = Map.empty\<rparr>")
      case (Inl e)
      with two obtain m' where "for_lines_heap (pass2_line_heap pack c l) lines (z, Map.empty) h3
          = (Inl e, h3\<lparr>memories := (memories h3)(c \<mapsto> m')\<rparr>)" by auto
      then have "assemble_heap pack input h = (Inl e, allocated h m' (p1_labels s1))"
        by (simp add: unfold r1 h3_def updc)
      moreover have "assemble pack input = Inl e" by (simp add: pure \<open>for_lines pass1_line lines _ = Inr s1\<close> Inl)
      ultimately show ?thesis by auto
    next
      case s2: (Inr s2)
      with two have "for_lines_heap (pass2_line_heap pack c l) lines (z, Map.empty) h3
          = (Inr (p2_address s2, p2_instructions s2), h3\<lparr>memories := (memories h3)(c \<mapsto> cart s2)\<rparr>)"
        by simp
      then have "assemble_heap pack input h
          = (Inr \<lparr>mem_ref = c, labels_ref = l, instructions_of = p2_instructions s2,
                  warnings_of = p1_console s1\<rparr>, allocated h (cart s2) (p1_labels s1))"
        by (simp add: unfold r1 h3_def updc)
      moreover have "assemble pack input = Inr \<lparr>mem = cart s2,
              debug = \<lparr>labels = p1_labels s1, instructions = p2_instructions s2\<rparr>,
              warnings = p1_console s1\<rparr>" by (simp add: pure Inr s2)
      ultimately show ?thesis by (simp add: c_def l_def)
    qed
  qed
qed


subsection \<open>What pass 2 leaves in the image\<close>

lemma wrap_tryte_wrap: "wrap_tryte (wrap_tryte x + y) = wrap_tryte (x + y)"
proof -
  have "((x + 9841) mod 19683 + y) mod 19683 = (x + 9841 + y) mod 19683"
    by (rule mod_add_left_eq)
  then show ?thesis by (simp add: wrap_tryte_def algebra_simps)
qed

lemma wrap_tryte_id: "- 9841 \<le> v \<Longrightarrow> v \<le> 9841 \<Longrightarrow> wrap_tryte v = v"
  by (simp add: wrap_tryte_def)

lemma wrap_tryte_shift:
  assumes "0 < d" and "d < 19683"
  shows "wrap_tryte (x + d) \<noteq> wrap_tryte x"
proof
  assume "wrap_tryte (x + d) = wrap_tryte x"
  then have "(x + d + 9841) mod 19683 = (x + 9841) mod 19683" by (simp add: wrap_tryte_def)
  then have "19683 dvd (x + d + 9841) - (x + 9841)" by (simp add: mod_eq_dvd_iff)
  then have "(19683 :: int) dvd d" by simp
  then have "19683 \<le> d" using assms(1) by (rule zdvd_imp_le)
  then show False using assms(2) by simp
qed

lemma block_store_frame:
  "idx \<noteq> nat (t2n a + 9841) \<Longrightarrow> block (store m v a) ! idx = block m ! idx"
  by (simp add: store_def int32array_set_def Let_def)

lemma pass2_line_cursor:
  assumes "pass2_line pack L line st = Inr st'" and "wf_tryte (p2_address st)"
  shows "\<exists>d. (d = 0 \<or> d = 1 \<or> d = 2)
           \<and> trits_value (p2_address st') = wrap_tryte (trits_value (p2_address st) + d)"
proof (cases "is_label_line line")
  case True
  have "st' = st" using True assms(1) by (rule pass2_line_label)
  then show ?thesis using wf_tryte_range [OF assms(2)] by (auto simp: wrap_tryte_id)
next
  case False
  from pass2_line_instruction [OF False assms(1)]
  have "p2_address st' = alu_add (alu_add (p2_address st) (tryte_of 1)) (tryte_of 1)
        \<or> p2_address st' = alu_add (p2_address st) (tryte_of 1)" by auto
  then show ?thesis
  proof
    assume "p2_address st' = alu_add (alu_add (p2_address st) (tryte_of 1)) (tryte_of 1)"
    then have "trits_value (p2_address st')
        = wrap_tryte (wrap_tryte (trits_value (p2_address st) + 1) + 1)"
      by (simp only: value_alu_add_one)
    also have "\<dots> = wrap_tryte (trits_value (p2_address st) + 1 + 1)"
      by (rule wrap_tryte_wrap)
    also have "trits_value (p2_address st) + 1 + 1 = trits_value (p2_address st) + 2"
      by arith
    finally have "trits_value (p2_address st') = wrap_tryte (trits_value (p2_address st) + 2)" .
    then show ?thesis by blast
  next
    assume "p2_address st' = alu_add (p2_address st) (tryte_of 1)"
    then have "trits_value (p2_address st') = wrap_tryte (trits_value (p2_address st) + 1)"
      by (simp add: value_alu_add_one)
    then show ?thesis by blast
  qed
qed

lemma pass2_line_frame:
  assumes "pass2_line pack L line st = Inr st'"
    and "idx \<noteq> nat (trits_value (p2_address st) + 9841)"
    and "idx \<noteq> nat (wrap_tryte (trits_value (p2_address st) + 1) + 9841)"
  shows "block (cart st') ! idx = block (cart st) ! idx"
proof (cases "is_label_line line")
  case True
  then show ?thesis using assms(1) pass2_line_label by blast
next
  case False
  from pass2_line_instruction [OF False assms(1)] assms(2,3)
  show ?thesis
    by (auto simp: block_store_frame value_alu_add_one split: option.splits)
qed

lemma for_lines_pass2_frame:
  assumes "for_lines (pass2_line pack L) lines st = Inr st'"
    and "wf_tryte (p2_address st)"
    and "\<forall>j. 0 \<le> j \<and> j < 2 * int (length lines)
             \<longrightarrow> idx \<noteq> nat (wrap_tryte (trits_value (p2_address st) + j) + 9841)"
  shows "block (cart st') ! idx = block (cart st) ! idx"
  using assms
proof (induction lines arbitrary: st)
  case Nil
  then show ?case by simp
next
  case (Cons line lines)
  from Cons.prems(1) obtain t where t: "pass2_line pack L line st = Inr t"
    "for_lines (pass2_line pack L) lines t = Inr st'" by (auto simp: try_bind_eq_Inr)
  let ?c = "trits_value (p2_address st)"
  have c: "wrap_tryte (?c + 0) = ?c"
    using wf_tryte_range [OF Cons.prems(2)] by (simp add: wrap_tryte_id)
  have i0: "idx \<noteq> nat (?c + 9841)" using Cons.prems(3) [rule_format, of 0] c by simp
  have i1: "idx \<noteq> nat (wrap_tryte (?c + 1) + 9841)"
    using Cons.prems(3) [rule_format, of 1] by simp
  have step: "block (cart t) ! idx = block (cart st) ! idx"
    using t(1) i0 i1 by (rule pass2_line_frame)
  have wf: "wf_tryte (p2_address t)" using t(1) Cons.prems(2) by (rule pass2_line_wf)
  obtain d where d: "d = 0 \<or> d = 1 \<or> d = 2"
    "trits_value (p2_address t) = wrap_tryte (?c + d)"
    using pass2_line_cursor [OF t(1) Cons.prems(2)] by blast
  have "\<forall>j. 0 \<le> j \<and> j < 2 * int (length lines)
             \<longrightarrow> idx \<noteq> nat (wrap_tryte (trits_value (p2_address t) + j) + 9841)"
  proof (intro allI impI)
    fix j :: int
    assume j: "0 \<le> j \<and> j < 2 * int (length lines)"
    have "0 \<le> d + j \<and> d + j < 2 * int (length (line # lines))" using d(1) j by auto
    then have "idx \<noteq> nat (wrap_tryte (?c + (d + j)) + 9841)"
      using Cons.prems(3) by blast
    then show "idx \<noteq> nat (wrap_tryte (trits_value (p2_address t) + j) + 9841)"
      by (simp add: d(2) wrap_tryte_wrap add.assoc)
  qed
  with t(2) wf have "block (cart st') ! idx = block (cart t) ! idx" by (rule Cons.IH)
  with step show ?case by simp
qed

lemma load_cell:
  assumes "wf_tryte a" and "length (block m) = 19683" and "wf_tryte w"
    and "block m ! nat (trits_value a + 9841) = word_of_int (trits_value w)"
  shows "load u m (Word a) = Inr w"
proof -
  have a: "- 9841 \<le> trits_value a \<and> trits_value a \<le> 9841" using assms(1) by (rule wf_tryte_range)
  have w: "- 9841 \<le> trits_value w \<and> trits_value w \<le> 9841" using assms(3) by (rule wf_tryte_range)
  have "int32array_get (block m) (trits_value a + 9841) = Some (trits_value w)"
    using a w assms(2,4) by (simp add: int32array_get_def sint_int32)
  then show ?thesis using assms(3) by (simp add: load_def n2t_t2n)
qed

lemma pass1_line_wf:
  assumes "pass1_line line st = Inr st'" and "wf_tryte (p1_address st)"
  shows "wf_tryte (p1_address st')"
proof (cases "is_label_line line")
  case True
  then show ?thesis using assms pass1_line_label by simp
next
  case False
  from pass1_line_instruction [OF False assms(1)] show ?thesis
    by (auto simp: wf_alu_add)
qed

lemma for_lines_pass1_wf:
  assumes "for_lines pass1_line lines st = Inr st'" and "wf_tryte (p1_address st)"
  shows "wf_tryte (p1_address st')"
  using assms
proof (induction lines arbitrary: st)
  case Nil
  then show ?case by simp
next
  case (Cons line lines)
  from Cons.prems(1) obtain t where t: "pass1_line line st = Inr t"
    "for_lines pass1_line lines t = Inr st'" by (auto simp: try_bind_eq_Inr)
  show ?case using Cons.IH [OF t(2)] pass1_line_wf [OF t(1) Cons.prems(2)] by simp
qed

lemma pass1_wf: "pass1 lines = Inr s \<Longrightarrow> wf_tryte (p1_address s)"
  using for_lines_pass1_wf [of lines _ s] by (simp add: pass1_def s2t_zero wf_zero)

subsection \<open>A small program\<close>

text \<open>The two-line program \<open>JMP .end\<close>, \<open>.end\<close>, evaluated step by step.\<close>

lemma lines_jmp_end:
  "source_lines ''JMP .end\<newline>.end'' = [''JMP .end'', ''.end'']"
  by code_simp

lemma parts_jmp_end: "parseInstructionParts ''JMP .end'' = [''JMP'', ''.end'']"
  by code_simp

lemma parse_jmp_end:
  "parseInstruction ''JMP'' [''.end'']
     = Inr (\<lparr>opcode = tryte_of 36, x_op = tryte_of 0, addressingMode = WORD_IMMEDIATE,
             y_op = tryte_of 0, z_op = Some (ZLabel ''end'')\<rparr>, [])"
  by code_simp

lemma label_line_jmp_end: "\<not> is_label_line ''JMP .end''"
  by code_simp

lemma label_line_end: "is_label_line ''.end''"
  by code_simp

lemma assemble_jmp_end:
  "succeeds (assemble (\<lambda>i. Inr (opcode i)) ''JMP .end\<newline>.end'')"
  by (simp add: assemble_def lines_jmp_end assemble_lines_def pass1_def pass2_def s2t_zero
        pass1_line_def pass2_line_def label_line_jmp_end label_line_end parts_jmp_end
        parse_jmp_end assembleInstruction_def n2t_in Let_def clone_def)

lemma assemble_end:
  "succeeds (assemble_lines pack [''.end''])"
  by (simp add: assemble_lines_def pass1_def pass2_def s2t_zero pass1_line_def pass2_line_def
        label_line_end Let_def)

lemma lines_end: "source_lines ''.end'' = [''.end'']"
  by code_simp

lemma pass2_line_jmp_end:
  assumes "pack jmp_end = Inr first" and "L ''end'' = Some target"
  shows "pass2_line pack L ''JMP .end'' st
     = Inr \<lparr>p2_address = alu_add (alu_add (p2_address st) (tryte_of 1)) (tryte_of 1),
            cart = store (store (cart st) (Word first) (Word (p2_address st)))
                     (Word target) (Word (alu_add (p2_address st) (tryte_of 1))),
            p2_instructions = (p2_instructions st)(t2n (Word (p2_address st)) \<mapsto> jmp_end)\<rparr>"
  using assms parse_jmp_end
  by (simp add: pass2_line_def label_line_jmp_end parts_jmp_end assembleInstruction_def
        jmp_end_def n2t_in Let_def)

lemma value_zero: "trits_value [Zero, Zero, Zero, Zero, Zero, Zero, Zero, Zero, Zero] = 0"
  by (simp add: trits_value_def)

lemma alu_add_zero_one:
  "alu_add [Zero, Zero, Zero, Zero, Zero, Zero, Zero, Zero, Zero] (tryte_of 1) = tryte_of 1"
  by (simp add: alu_add_def value_zero value_tryte_of wrap_tryte_def)

lemma alu_add_one_one: "alu_add (tryte_of 1) (tryte_of 1) = tryte_of 2"
  by (simp add: alu_add_def value_tryte_of wrap_tryte_def)

lemma pass1_jmp_end: "\<exists>s. pass1 [''JMP .end''] = Inr s \<and> p1_address s = tryte_of 2"
  by (simp add: pass1_def s2t_zero pass1_line_def label_line_jmp_end parts_jmp_end
        parse_jmp_end n2t_in Let_def alu_add_zero_one alu_add_one_one)

section \<open>Claims about the parser\<close>

text \<open>
  C1, what the code does. \<open>isShort\<close> tests \<open>n > 4 && n < -4\<close>, which no number
  satisfies, so an operand that is not a register and parses as an immediate is always
  given mode \<open>WORD_IMMEDIATE\<close> with the immediate in the second word \<open>z\<close>, also when
  its magnitude is at most 4 (the witness is the immediate of value 1).
\<close>

theorem immediate_is_word_immediate:
  assumes "parseRegisterOperand operand = Inr None"
    and "parseImmediateOperand operand = Some immediate"
  shows "unionParseYZ partial operand allowLabel
         = Inr (Some \<lparr>opcode = opcode partial, x_op = x_op partial,
                       addressingMode = WORD_IMMEDIATE, y_op = tryte_of 0,
                       z_op = Some (ZWord immediate)\<rparr>)"
  using assms by (simp add: unionParseYZ_def isShort_False n2t_in)

theorem immediate_is_word_immediate_witness:
  "parseRegisterOperand (Some '' oooooooo+'') = Inr None
   \<and> parseImmediateOperand (Some '' oooooooo+'')
       = Some [Zero, Zero, Zero, Zero, Zero, Zero, Zero, Zero, Pos]
   \<and> t2n (Word [Zero, Zero, Zero, Zero, Zero, Zero, Zero, Zero, Pos]) = 1
   \<and> unionParseYZ \<lparr>opcode = tryte_of 0, x_op = tryte_of (- 4)\<rparr> (Some '' oooooooo+'') False
       = Inr (Some \<lparr>opcode = tryte_of 0, x_op = tryte_of (- 4),
                     addressingMode = WORD_IMMEDIATE, y_op = tryte_of 0,
                     z_op = Some (ZWord [Zero, Zero, Zero, Zero, Zero, Zero, Zero, Zero, Pos])\<rparr>)"
proof -
  have r: "parseRegisterOperand (Some '' oooooooo+'') = Inr None" by code_simp
  have i: "parseImmediateOperand (Some '' oooooooo+'')
             = Some [Zero, Zero, Zero, Zero, Zero, Zero, Zero, Zero, Pos]" by code_simp
  have v: "t2n (Word [Zero, Zero, Zero, Zero, Zero, Zero, Zero, Zero, Pos]) = 1"
    by (simp add: trits_value_def)
  show ?thesis
    using immediate_is_word_immediate [OF r i, of "\<lparr>opcode = tryte_of 0, x_op = tryte_of (- 4)\<rparr>" False] r i v
    by simp
qed

text \<open>
  C2 as stated fails: the line \<open>ADD r0, r1\<close> is accepted and given opcode -39, which is
  not the table's -13 and lies outside [-13, 9].
\<close>

theorem add_opcode_counterexample:
  "(case parseInstruction ''ADD'' [''r0'', '' r1''] of
      Inl e \<Rightarrow> 0
    | Inr (i, rest) \<Rightarrow> t2n (Word (opcode i))) = - 39"
  by code_simp


lemma assembleOpcodeStr_table:
  assumes "assembleOpcodeStr str = Inr t"
  shows "(toUpperCase str, t2n (Word t)) \<in> set
          [(''ADD'', - 13), (''ADDC'', - 11), (''MUL'', - 10), (''DIV'', - 9), (''MOD'', - 8),
           (''NEG'', - 7), (''MIN'', - 6), (''MAX'', - 5), (''CON'', - 4), (''ANY'', - 3),
           (''RSH'', - 2), (''USH'', - 1), (''NOP'', 0), (''MOV'', 1), (''CMP'', 2),
           (''JMP'', 3), (''BEQ'', 4), (''BGT'', 5), (''BLT'', 6), (''JAL'', 7), (''LOD'', 8),
           (''XOR'', 9)]"
  using assms
  by (auto simp: assembleOpcodeStr_def Let_def n2t_in value_tryte_of split: if_splits)

text \<open>
  C2, as the code has it. For every mnemonic that \<open>parseInstruction\<close> accepts, the opcode
  it assigns is NOP = 0, MOV = 0, ADD = -39, MUL = -37, DIV = -36, STA = 2, LDA = 1,
  JMP = 36. The table MOV = 1, JMP = 3, ADD = -13, MUL = -10, DIV = -9, NOP = 0, with
  every opcode in [-13, 9], is what \<open>assembleOpcodeStr\<close> returns, a function that
  \<open>assemble\<close> does not call.
\<close>

theorem opcode_tables:
  "(parseInstruction mnemonic operands = Inr (i, rest) \<longrightarrow>
      (toUpperCase mnemonic, t2n (Word (opcode i))) \<in> set
        [(''NOP'', 0), (''MOV'', 0), (''ADD'', - 39), (''MUL'', - 37), (''DIV'', - 36),
         (''STA'', 2), (''LDA'', 1), (''JMP'', 36)])
   \<and> (assembleOpcodeStr str = Inr t \<longrightarrow>
        (toUpperCase str, t2n (Word t)) \<in> set
          [(''ADD'', - 13), (''ADDC'', - 11), (''MUL'', - 10), (''DIV'', - 9), (''MOD'', - 8),
           (''NEG'', - 7), (''MIN'', - 6), (''MAX'', - 5), (''CON'', - 4), (''ANY'', - 3),
           (''RSH'', - 2), (''USH'', - 1), (''NOP'', 0), (''MOV'', 1), (''CMP'', 2),
           (''JMP'', 3), (''BEQ'', 4), (''BGT'', 5), (''BLT'', 6), (''JAL'', 7), (''LOD'', 8),
           (''XOR'', 9)]
        \<and> - 13 \<le> t2n (Word t) \<and> t2n (Word t) \<le> 9)"
proof (intro conjI impI)
  assume p: "parseInstruction mnemonic operands = Inr (i, rest)"
  have known: "toUpperCase mnemonic \<in> set mnemonics" using p by (rule parseInstruction_known)
  have "opcode i = tryte_of (parser_opcode (toUpperCase mnemonic))"
    using p by (rule parseInstruction_shape(1))
  moreover have "- 9841 \<le> parser_opcode (toUpperCase mnemonic)"
    "parser_opcode (toUpperCase mnemonic) \<le> 9841"
    by (simp_all add: parser_opcode_def)
  ultimately have "t2n (Word (opcode i)) = parser_opcode (toUpperCase mnemonic)"
    by (simp add: value_tryte_of)
  then show "(toUpperCase mnemonic, t2n (Word (opcode i))) \<in> set
        [(''NOP'', 0), (''MOV'', 0), (''ADD'', - 39), (''MUL'', - 37), (''DIV'', - 36),
         (''STA'', 2), (''LDA'', 1), (''JMP'', 36)]"
    using known by (auto simp: mnemonics_def parser_opcode_def)
next
  assume a: "assembleOpcodeStr str = Inr t"
  then show "(toUpperCase str, t2n (Word t)) \<in> set
          [(''ADD'', - 13), (''ADDC'', - 11), (''MUL'', - 10), (''DIV'', - 9), (''MOD'', - 8),
           (''NEG'', - 7), (''MIN'', - 6), (''MAX'', - 5), (''CON'', - 4), (''ANY'', - 3),
           (''RSH'', - 2), (''USH'', - 1), (''NOP'', 0), (''MOV'', 1), (''CMP'', 2),
           (''JMP'', 3), (''BEQ'', 4), (''BGT'', 5), (''BLT'', 6), (''JAL'', 7), (''LOD'', 8),
           (''XOR'', 9)]"
    by (rule assembleOpcodeStr_table)
  then show "- 13 \<le> t2n (Word t)" by auto
  from assembleOpcodeStr_table [OF a] show "t2n (Word t) \<le> 9" by auto
qed

lemma parse_MOV: "parseInstruction ''MOV'' [''r0'', '' r1'']
    = Inr (\<lparr>opcode = tryte_of 0, x_op = tryte_of (- 4), addressingMode = REGISTER_REGISTER,
            y_op = tryte_of (- 3), z_op = None\<rparr>, [])"
  by code_simp

lemma asm_MOV: "assembleOpcodeStr ''mov'' = Inr (tryte_of 1)"
  by code_simp

theorem opcode_tables_witness:
  "parseInstruction ''MOV'' [''r0'', '' r1'']
     = Inr (\<lparr>opcode = tryte_of 0, x_op = tryte_of (- 4), addressingMode = REGISTER_REGISTER,
             y_op = tryte_of (- 3), z_op = None\<rparr>, [])
   \<and> t2n (Word (tryte_of 0)) = 0
   \<and> assembleOpcodeStr ''mov'' = Inr (tryte_of 1)
   \<and> t2n (Word (tryte_of 1)) = 1"
  using opcode_tables [of "''MOV''" "[''r0'', '' r1'']" _ "[]" "''mov''" "tryte_of 1"]
    parse_MOV asm_MOV
  by (simp add: value_tryte_of)


section \<open>Claims about the assembler\<close>

text \<open>
  C8. Let a source line that is not a label be the first line of the program at which
  pass 1 fails to pass (pass 1 runs over the lines before it without error). If its
  mnemonic is not one of the supported operations, assembly fails with the message
  \<open>unknown operation '...'\<close> that quotes the mnemonic as written. If its mnemonic is
  one of the instructions with a register first operand (MOV, ADD, MUL, DIV, STA, LDA,
  in any letter case) and the first operand is missing or is not a register token,
  assembly fails with a message that starts with the mnemonic and \<open>: operand 1\<close>.
\<close>

theorem rejected_lines:
  assumes "source_lines input = pre @ line # post"
    and "succeeds (pass1 pre)"
    and "\<not> is_label_line line"
    and "parseInstructionParts line = mnemonic # operands"
  shows "(toUpperCase mnemonic \<notin> set mnemonics \<longrightarrow>
            assemble pack input
              = Inl (Error (''unknown operation '' @ [CHR 0x27] @ mnemonic @ [CHR 0x27])))
         \<and> (toUpperCase mnemonic \<in> set [''MOV'', ''ADD'', ''MUL'', ''DIV'', ''STA'', ''LDA'']
              \<and> (case operands of [] \<Rightarrow> True
                  | o1 # _ \<Rightarrow> o1 = [] \<or> toLowerCase (trim o1) \<notin> set register_tokens)
            \<longrightarrow> (\<exists>rest. assemble pack input
                   = Inl (Error (toUpperCase mnemonic @ '': operand 1'' @ rest))))"
proof (intro conjI impI)
  assume "toUpperCase mnemonic \<notin> set mnemonics"
  then have "parseInstruction mnemonic operands
     = Inl (Error (''unknown operation '' @ [CHR 0x27] @ mnemonic @ [CHR 0x27]))"
    by (rule parseInstruction_unknown)
  then show "assemble pack input
              = Inl (Error (''unknown operation '' @ [CHR 0x27] @ mnemonic @ [CHR 0x27]))"
    using assms by (simp add: assemble_def assemble_lines_parse_error)
next
  assume a: "toUpperCase mnemonic \<in> set [''MOV'', ''ADD'', ''MUL'', ''DIV'', ''STA'', ''LDA'']
              \<and> (case operands of [] \<Rightarrow> True
                  | o1 # _ \<Rightarrow> o1 = [] \<or> toLowerCase (trim o1) \<notin> set register_tokens)"
  then obtain rest where "parseInstruction mnemonic operands
           = Inl (Error (toUpperCase mnemonic @ '': operand 1'' @ rest))"
    using parseInstruction_operand1 [of mnemonic operands] by blast
  then have "assemble pack input = Inl (Error (toUpperCase mnemonic @ '': operand 1'' @ rest))"
    using assms by (simp add: assemble_def assemble_lines_parse_error)
  then show "\<exists>rest. assemble pack input
                   = Inl (Error (toUpperCase mnemonic @ '': operand 1'' @ rest))" ..
qed

lemma pass1_Nil: "succeeds (pass1 [])"
  by (simp add: pass1_def s2t_zero)

theorem rejected_lines_witness:
  "assemble (\<lambda>i. Inr (opcode i)) ''FOO r0, r1''
     = Inl (Error (''unknown operation '' @ [CHR 0x27] @ ''FOO'' @ [CHR 0x27]))
   \<and> (\<exists>rest. assemble (\<lambda>i. Inr (opcode i)) ''mov r9, r1''
                = Inl (Error (''MOV'' @ '': operand 1'' @ rest)))"
proof -
  have l1: "source_lines ''FOO r0, r1'' = [] @ ''FOO r0, r1'' # []" by code_simp
  have n1: "\<not> is_label_line ''FOO r0, r1''" by code_simp
  have p1: "parseInstructionParts ''FOO r0, r1'' = ''FOO'' # [''r0'', '' r1'']" by code_simp
  have u1: "toUpperCase ''FOO'' \<notin> set mnemonics" by code_simp
  have l2: "source_lines ''mov r9, r1'' = [] @ ''mov r9, r1'' # []" by code_simp
  have n2: "\<not> is_label_line ''mov r9, r1''" by code_simp
  have p2: "parseInstructionParts ''mov r9, r1'' = ''mov'' # [''r9'', '' r1'']" by code_simp
  have u2: "toUpperCase ''mov'' = ''MOV''" by code_simp
  have r2: "toLowerCase (trim ''r9'') \<notin> set register_tokens" by code_simp
  from rejected_lines [OF l1 pass1_Nil n1 p1, of "\<lambda>i. Inr (opcode i)"] u1
  have a: "assemble (\<lambda>i. Inr (opcode i)) ''FOO r0, r1''
     = Inl (Error (''unknown operation '' @ [CHR 0x27] @ ''FOO'' @ [CHR 0x27]))"
    by blast
  from rejected_lines [OF l2 pass1_Nil n2 p2, of "\<lambda>i. Inr (opcode i)"] u2 r2
  have "\<exists>rest. assemble (\<lambda>i. Inr (opcode i)) ''mov r9, r1''
                   = Inl (Error (''MOV'' @ '': operand 1'' @ rest))"
    by simp
  with a show ?thesis by blast
qed


text \<open>
  C3. For every source text that assembles without error and every instruction line
  \<open>k\<close> of it: pass 1 and pass 2 both reach line \<open>k\<close>, the address cursor of pass 1 there
  equals the cursor of pass 2 there, and right after pass 2 has processed the line the
  program image holds the first encoded word of the instruction in the cell of that
  address. Both passes then stand at the same address again: one word further, or two
  exactly when the encoding has a second word.
\<close>

theorem two_pass_agreement:
  assumes "succeeds (assemble pack input)"
    and "k < length (source_lines input)"
    and "\<not> is_label_line (source_lines input ! k)"
  shows "\<exists>r s1 s2 s1' s2' mnemonic operands i rest data0 data1.
           assemble pack input = Inr r
           \<and> pass1 (take k (source_lines input)) = Inr s1
           \<and> pass2 pack (labels (debug r)) (take k (source_lines input)) = Inr s2
           \<and> p1_address s1 = p2_address s2
           \<and> parseInstructionParts (source_lines input ! k) = mnemonic # operands
           \<and> parseInstruction mnemonic operands = Inr (i, rest)
           \<and> assembleInstruction pack i (labels (debug r)) = Inr (data0, data1)
           \<and> pass1 (take (Suc k) (source_lines input)) = Inr s1'
           \<and> pass2 pack (labels (debug r)) (take (Suc k) (source_lines input)) = Inr s2'
           \<and> block (cart s2') ! nat (t2n (Word (p1_address s1)) + 9841)
               = word_of_int (t2n (Word data0))
           \<and> p1_address s1' = p2_address s2'
           \<and> p2_address s2' =
                (if data1 = None then alu_add (p1_address s1) (tryte_of 1)
                 else alu_add (alu_add (p1_address s1) (tryte_of 1)) (tryte_of 1))"
proof -
  define lines where "lines = source_lines input"
  define z where "z = [Zero, Zero, Zero, Zero, Zero, Zero, Zero, Zero, Zero]"
  define i1 where "i1 = \<lparr>p1_address = z, p1_labels = Map.empty, p1_console = []\<rparr>"
  define i2 where "i2 = \<lparr>p2_address = z, cart = Memory_constructor None,
                          p2_instructions = Map.empty\<rparr>"
  obtain r where r: "assemble_lines pack lines = Inr r"
    using assms(1) by (auto simp: succeeds_iff assemble_def lines_def)
  then obtain f1 f2 where f1: "pass1 lines = Inr f1"
    and f2: "pass2 pack (p1_labels f1) lines = Inr f2"
    and lab: "labels (debug r) = p1_labels f1"
    by (auto simp: assemble_lines_Inr)
  have p1: "pass1 ls = for_lines pass1_line ls i1" for ls
    by (simp add: pass1_def s2t_zero i1_def z_def)
  have p2: "pass2 pack (p1_labels f1) ls = for_lines (pass2_line pack (p1_labels f1)) ls i2" for ls
    by (simp add: pass2_def s2t_zero i2_def z_def)
  have split: "lines = take k lines @ lines ! k # drop (Suc k) lines"
    using assms(2) by (simp add: lines_def id_take_nth_drop)
  have take_Suc: "take (Suc k) lines = take k lines @ [lines ! k]"
    using assms(2) by (simp add: lines_def take_Suc_conv_app_nth)
  obtain s1 where s1: "for_lines pass1_line (take k lines) i1 = Inr s1"
    using for_lines_take [OF f1 [unfolded p1]] by blast
  obtain s1' where s1': "for_lines pass1_line (take (Suc k) lines) i1 = Inr s1'"
    using for_lines_take [OF f1 [unfolded p1]] by blast
  obtain s2 where s2: "for_lines (pass2_line pack (p1_labels f1)) (take k lines) i2 = Inr s2"
    using for_lines_take [OF f2 [unfolded p2]] by blast
  obtain s2' where s2': "for_lines (pass2_line pack (p1_labels f1)) (take (Suc k) lines) i2 = Inr s2'"
    using for_lines_take [OF f2 [unfolded p2]] by blast
  have step2: "pass2_line pack (p1_labels f1) (lines ! k) s2 = Inr s2'"
    using s2' unfolding take_Suc for_lines_append by (simp add: s2 try_bind_eq_Inr)
  have agree: "p1_address s1 = p2_address s2"
    using s1 s2 by (rule for_lines_agree) (simp add: i1_def i2_def)
  have agree': "p1_address s1' = p2_address s2'"
    using s1' s2' by (rule for_lines_agree) (simp add: i1_def i2_def)
  have inv: "wf_tryte (p2_address s2) \<and> length (block (cart s2)) = 19683"
    using s2 by (rule for_lines_pass2_inv)
       (simp_all add: i2_def z_def wf_tryte_def Memory_constructor_def TRYTE_NUM_VALUES_def)
  have instr: "\<not> is_label_line (lines ! k)" using assms(3) by (simp add: lines_def)
  from pass2_line_first_word [OF instr step2] inv
  obtain mnemonic operands i rest data0 data1 where
    "parseInstructionParts (lines ! k) = mnemonic # operands"
    "parseInstruction mnemonic operands = Inr (i, rest)"
    "assembleInstruction pack i (p1_labels f1) = Inr (data0, data1)"
    "block (cart s2') ! nat (t2n (Word (p2_address s2)) + 9841) = word_of_int (t2n (Word data0))"
    "p2_address s2' =
                 (if data1 = None then alu_add (p2_address s2) (tryte_of 1)
                  else alu_add (alu_add (p2_address s2) (tryte_of 1)) (tryte_of 1))"
    by blast
  then show ?thesis
    using r s1 s2 s1' s2' agree agree' lab
    unfolding p1 [symmetric] p2 [symmetric] lines_def assemble_def
    by (intro exI [of _ r] exI [of _ s1] exI [of _ s2] exI [of _ s1'] exI [of _ s2']
          exI [of _ mnemonic] exI [of _ operands] exI [of _ i] exI [of _ rest]
          exI [of _ data0] exI [of _ data1]) simp
qed


theorem two_pass_agreement_witness:
  "succeeds (assemble (\<lambda>i. Inr (opcode i)) ''JMP .end\<newline>.end'')
   \<and> 0 < length (source_lines ''JMP .end\<newline>.end'')
   \<and> \<not> is_label_line (source_lines ''JMP .end\<newline>.end'' ! 0)
   \<and> (\<exists>r s1 s2 s1' s2' mnemonic operands i rest data0 data1.
           assemble (\<lambda>i. Inr (opcode i)) ''JMP .end\<newline>.end'' = Inr r
           \<and> pass1 (take 0 (source_lines ''JMP .end\<newline>.end'')) = Inr s1
           \<and> pass2 (\<lambda>i. Inr (opcode i)) (labels (debug r)) (take 0 (source_lines ''JMP .end\<newline>.end'')) = Inr s2
           \<and> p1_address s1 = p2_address s2
           \<and> parseInstructionParts (source_lines ''JMP .end\<newline>.end'' ! 0) = mnemonic # operands
           \<and> parseInstruction mnemonic operands = Inr (i, rest)
           \<and> assembleInstruction (\<lambda>i. Inr (opcode i)) i (labels (debug r)) = Inr (data0, data1)
           \<and> pass1 (take (Suc 0) (source_lines ''JMP .end\<newline>.end'')) = Inr s1'
           \<and> pass2 (\<lambda>i. Inr (opcode i)) (labels (debug r)) (take (Suc 0) (source_lines ''JMP .end\<newline>.end'')) = Inr s2'
           \<and> block (cart s2') ! nat (t2n (Word (p1_address s1)) + 9841)
               = word_of_int (t2n (Word data0))
           \<and> p1_address s1' = p2_address s2'
           \<and> p2_address s2' =
                (if data1 = None then alu_add (p1_address s1) (tryte_of 1)
                 else alu_add (alu_add (p1_address s1) (tryte_of 1)) (tryte_of 1)))"
proof -
  have h1: "succeeds (assemble (\<lambda>i. Inr (opcode i)) ''JMP .end\<newline>.end'')"
    by (rule assemble_jmp_end)
  have h2: "0 < length (source_lines ''JMP .end\<newline>.end'')"
    by (simp add: lines_jmp_end)
  have h3: "\<not> is_label_line (source_lines ''JMP .end\<newline>.end'' ! 0)"
    by (simp add: lines_jmp_end label_line_jmp_end)
  show ?thesis
    by (intro conjI h1 h2 h3 two_pass_agreement [OF h1 h2 h3])
qed


lemma jump_label_binding:
  assumes "succeeds (assemble_lines pack (pre @ mid @ ''.end'' # post))"
    and "''.end'' \<notin> set post"
    and "pack jmp_end = Inr first"
  shows "\<exists>r t. assemble_lines pack (pre @ ''JMP .end'' # mid @ ''.end'' # post) = Inr r
           \<and> parseInstruction ''JMP'' [''.end''] = Inr (jmp_end, [])
           \<and> pass1 (pre @ ''JMP .end'' # mid) = Inr t
           \<and> labels (debug r) ''end'' = Some (p1_address t)
           \<and> assembleInstruction pack jmp_end (labels (debug r))
               = Inr (first, Some (p1_address t))"
proof -
  let ?rest = "pre @ mid @ ''.end'' # post"
  let ?lines = "pre @ ''JMP .end'' # mid @ ''.end'' # post"
  let ?D = "\<lambda>lines n. if CHR ''.'' # n \<in> set lines then Some ([] :: tryte) else None"
  define s0 where "s0 = \<lparr>p1_address = [], p1_labels = Map.empty, p1_console = []\<rparr>"
  define t0 where "t0 = \<lparr>p2_address = [], cart = Memory_constructor None,
                          p2_instructions = Map.empty\<rparr>"
  have parse: "parseInstruction ''JMP'' [''.end''] = Inr (jmp_end, [])"
    unfolding jmp_end_def by (rule parse_jmp_end)
  have D: "?D ?lines = ?D ?rest" by (rule ext) auto
  have rest_ok: "\<forall>l \<in> set ?rest. succeeds (pass1_line l s0) \<and> succeeds (pass2_line pack (?D ?rest) l t0)"
    using assms(1) by (simp only: assemble_lines_succeeds_iff [of pack ?rest s0 t0])
  have j1: "succeeds (pass1_line ''JMP .end'' s0)"
    unfolding pass1_line_succeeds_iff using parts_jmp_end parse by blast
  have "succeeds (assembleInstruction pack jmp_end (?D ?rest))"
    using assms(3) by (simp add: assembleInstruction_def jmp_end_def)
  then have j2: "succeeds (pass2_line pack (?D ?rest) ''JMP .end'' t0)"
    unfolding pass2_line_succeeds_iff using parts_jmp_end parse by blast
  have "\<forall>l \<in> set ?lines. succeeds (pass1_line l s0) \<and> succeeds (pass2_line pack (?D ?lines) l t0)"
    unfolding D using rest_ok j1 j2 by auto
  then have "succeeds (assemble_lines pack ?lines)"
    by (simp only: assemble_lines_succeeds_iff [of pack ?lines s0 t0])
  then obtain r where r: "assemble_lines pack ?lines = Inr r" by (auto simp: succeeds_iff)
  then obtain s1 where s1: "pass1 ?lines = Inr s1" and lab: "labels (debug r) = p1_labels s1"
    by (auto simp: assemble_lines_Inr)
  have "pass1 ((pre @ ''JMP .end'' # mid) @ (CHR ''.'' # ''end'') # post) = Inr s1"
    using s1 by simp
  from pass1_last_declaration [OF this] assms(2)
  obtain t where t: "pass1 (pre @ ''JMP .end'' # mid) = Inr t"
    "p1_labels s1 ''end'' = Some (p1_address t)" by auto
  have "assembleInstruction pack jmp_end (labels (debug r)) = Inr (first, Some (p1_address t))"
    using assms(3) t(2) by (simp add: assembleInstruction_def jmp_end_def lab)
  then show ?thesis using r parse t lab by auto
qed


text \<open>
  C7. Take a program in which the line \<open>JMP .end\<close> stands before the (last)
  declaration \<open>.end\<close>, and whose other lines assemble (the program without the jump
  assembles), the first word of the jump being encodable. Then the program assembles:
  pass 1 does not look the label up, and in pass 2 the label table is complete. The
  label table binds \<open>end\<close> to the pass-1 cursor at that declaration, and this address is
  the jump target that pass 2 encodes and stores: when pass 2 has processed the jump,
  the cell at the jump's pass-1 address holds the first word and the next cell holds
  the address bound to \<open>end\<close>, so that \<open>load\<close> of that cell returns it. The finished
  image still holds it there when the lines after the jump are too few to wrap around
  the address space (fewer than 19683 words).
\<close>

theorem forward_reference:
  assumes "succeeds (assemble_lines pack (pre @ mid @ ''.end'' # post))"
    and "''.end'' \<notin> set post"
    and "pack jmp_end = Inr first"
  shows "\<exists>r t c s2.
           assemble_lines pack (pre @ ''JMP .end'' # mid @ ''.end'' # post) = Inr r
           \<and> parseInstruction ''JMP'' [''.end''] = Inr (jmp_end, [])
           \<and> pass1 (pre @ ''JMP .end'' # mid) = Inr t
           \<and> labels (debug r) ''end'' = Some (p1_address t)
           \<and> assembleInstruction pack jmp_end (labels (debug r))
               = Inr (first, Some (p1_address t))
           \<and> pass1 pre = Inr c
           \<and> pass2 pack (labels (debug r)) (pre @ [''JMP .end'']) = Inr s2
           \<and> block (cart s2) ! nat (t2n (Word (p1_address c)) + 9841)
               = word_of_int (t2n (Word first))
           \<and> block (cart s2) ! nat (t2n (Word (alu_add (p1_address c) (tryte_of 1))) + 9841)
               = word_of_int (t2n (Word (p1_address t)))
           \<and> load u (cart s2) (Word (alu_add (p1_address c) (tryte_of 1))) = Inr (p1_address t)
           \<and> (2 * length (mid @ ''.end'' # post) < 19683 \<longrightarrow>
                block (mem r) ! nat (t2n (Word (alu_add (p1_address c) (tryte_of 1))) + 9841)
                  = word_of_int (t2n (Word (p1_address t)))
                \<and> load u (mem r) (Word (alu_add (p1_address c) (tryte_of 1)))
                    = Inr (p1_address t))"
proof -
  let ?rest = "mid @ ''.end'' # post"
  let ?lines = "pre @ ''JMP .end'' # ?rest"
  define z where "z = [Zero, Zero, Zero, Zero, Zero, Zero, Zero, Zero, Zero]"
  define i1 where "i1 = \<lparr>p1_address = z, p1_labels = Map.empty, p1_console = []\<rparr>"
  define i2 where "i2 = \<lparr>p2_address = z, cart = Memory_constructor None,
                          p2_instructions = Map.empty\<rparr>"
  from jump_label_binding [OF assms]
  obtain r t where r: "assemble_lines pack ?lines = Inr r"
    and parse: "parseInstruction ''JMP'' [''.end''] = Inr (jmp_end, [])"
    and t: "pass1 (pre @ ''JMP .end'' # mid) = Inr t"
    and bound: "labels (debug r) ''end'' = Some (p1_address t)"
    and enc: "assembleInstruction pack jmp_end (labels (debug r)) = Inr (first, Some (p1_address t))"
    by blast
  define L where "L = labels (debug r)"
  from r obtain s1 f2 where s1: "pass1 ?lines = Inr s1"
    and f2: "pass2 pack L ?lines = Inr f2" and image: "mem r = cart f2"
    by (auto simp: assemble_lines_Inr L_def)
  have p1: "pass1 ls = for_lines pass1_line ls i1" for ls
    by (simp add: pass1_def s2t_zero i1_def z_def)
  have p2: "pass2 pack L ls = for_lines (pass2_line pack L) ls i2" for ls
    by (simp add: pass2_def s2t_zero i2_def z_def)
  obtain c where c: "pass1 pre = Inr c"
    using s1 by (auto simp: pass1_append try_bind_eq_Inr)
  from f2 obtain p s2 where p: "for_lines (pass2_line pack L) pre i2 = Inr p"
    and step: "pass2_line pack L ''JMP .end'' p = Inr s2"
    and rest: "for_lines (pass2_line pack L) ?rest s2 = Inr f2"
    unfolding p2 for_lines_append [of "pass2_line pack L" pre "''JMP .end'' # ?rest" i2]
    by (auto simp only: try_bind_eq_Inr for_lines.simps)
  have s2: "pass2 pack L (pre @ [''JMP .end'']) = Inr s2"
    unfolding p2 for_lines_append by (simp add: p step)
  have cursor: "p1_address c = p2_address p"
    using c [unfolded p1] p by (rule for_lines_agree) (simp add: i1_def i2_def)
  have inv: "wf_tryte (p2_address p) \<and> length (block (cart p)) = 19683"
    using p by (rule for_lines_pass2_inv)
       (simp_all add: i2_def z_def wf_tryte_def Memory_constructor_def TRYTE_NUM_VALUES_def)
  have inv2: "wf_tryte (p2_address s2) \<and> length (block (cart s2)) = 19683"
    using s2 [unfolded p2] by (rule for_lines_pass2_inv)
       (simp_all add: i2_def z_def wf_tryte_def Memory_constructor_def TRYTE_NUM_VALUES_def)
  have invf: "length (block (cart f2)) = 19683"
    using for_lines_pass2_inv [OF f2 [unfolded p2]]
    by (simp add: i2_def z_def wf_tryte_def Memory_constructor_def TRYTE_NUM_VALUES_def)
  define a where "a = p2_address p"
  define a1 where "a1 = alu_add a (tryte_of 1)"
  have wfa: "wf_tryte a" using inv by (simp add: a_def)
  have wfa1: "wf_tryte a1" by (simp add: a1_def wf_alu_add)
  have wft: "wf_tryte (p1_address t)" using t by (rule pass1_wf)
  have target: "L ''end'' = Some (p1_address t)" using bound by (simp add: L_def)
  have s2_eq: "s2 = \<lparr>p2_address = alu_add a1 (tryte_of 1),
            cart = store (store (cart p) (Word first) (Word a)) (Word (p1_address t)) (Word a1),
            p2_instructions = (p2_instructions p)(t2n (Word a) \<mapsto> jmp_end)\<rparr>"
    using step pass2_line_jmp_end [of pack first L "p1_address t" p] assms(3) target
    by (simp add: a_def a1_def)
  have len1: "length (block (store (cart p) (Word first) (Word a))) = 19683"
    using inv by (simp add: length_block_store)
  have neq: "trits_value a1 \<noteq> trits_value a"
    using wf_tryte_range [OF wfa] by (simp add: a1_def value_alu_add_one wrap_tryte_succ)
  have cell1: "block (cart s2) ! nat (trits_value a1 + 9841) = word_of_int (t2n (Word (p1_address t)))"
    unfolding s2_eq using block_store_same [OF wfa1 len1] by simp
  have cell0: "block (cart s2) ! nat (trits_value a + 9841) = word_of_int (t2n (Word first))"
    unfolding s2_eq
    using block_store_other [OF wfa wfa1 neq] block_store_same [OF wfa] inv by simp
  have load1: "load u (cart s2) (Word a1) = Inr (p1_address t)"
    using wfa1 _ wft
  proof (rule load_cell)
    show "length (block (cart s2)) = 19683" using inv2 by simp
    show "block (cart s2) ! nat (trits_value a1 + 9841) = word_of_int (trits_value (p1_address t))"
      using cell1 by simp
  qed
  have final: "block (mem r) ! nat (trits_value a1 + 9841) = word_of_int (t2n (Word (p1_address t)))
        \<and> load u (mem r) (Word a1) = Inr (p1_address t)"
    if small: "2 * length ?rest < 19683"
  proof -
    let ?w1 = "trits_value a1"
    have w1: "- 9841 \<le> ?w1 \<and> ?w1 \<le> 9841" using wfa1 by (rule wf_tryte_range)
    have c2: "trits_value (p2_address s2) = wrap_tryte (?w1 + 1)"
      by (simp add: s2_eq value_alu_add_one)
    have "\<forall>j. 0 \<le> j \<and> j < 2 * int (length ?rest)
             \<longrightarrow> nat (?w1 + 9841) \<noteq> nat (wrap_tryte (trits_value (p2_address s2) + j) + 9841)"
    proof (intro allI impI)
      fix j :: int
      assume j: "0 \<le> j \<and> j < 2 * int (length ?rest)"
      have "wrap_tryte (trits_value (p2_address s2) + j) = wrap_tryte (?w1 + 1 + j)"
        unfolding c2 by (rule wrap_tryte_wrap)
      also have "?w1 + 1 + j = ?w1 + (1 + j)" by arith
      finally have eq: "wrap_tryte (trits_value (p2_address s2) + j) = wrap_tryte (?w1 + (1 + j))" .
      have "wrap_tryte (?w1 + (1 + j)) \<noteq> wrap_tryte ?w1"
        using j small by (intro wrap_tryte_shift) linarith+
      then have "wrap_tryte (?w1 + (1 + j)) \<noteq> ?w1" using w1 by (simp add: wrap_tryte_id)
      moreover have "- 9841 \<le> wrap_tryte (?w1 + (1 + j))"
        using wrap_tryte_range [of "?w1 + (1 + j)"] by simp
      ultimately show "nat (?w1 + 9841) \<noteq> nat (wrap_tryte (trits_value (p2_address s2) + j) + 9841)"
        unfolding eq using w1 by linarith
    qed
    with rest inv2 have "block (cart f2) ! nat (?w1 + 9841) = block (cart s2) ! nat (?w1 + 9841)"
      by (intro for_lines_pass2_frame) auto
    then have cellf: "block (mem r) ! nat (?w1 + 9841) = word_of_int (t2n (Word (p1_address t)))"
      using cell1 by (simp add: image)
    have "load u (mem r) (Word a1) = Inr (p1_address t)"
      using wfa1 _ wft
    proof (rule load_cell)
      show "length (block (mem r)) = 19683" using invf by (simp add: image)
      show "block (mem r) ! nat (?w1 + 9841) = word_of_int (trits_value (p1_address t))"
        using cellf by simp
    qed
    with cellf show ?thesis by simp
  qed
  have a_c: "a = p1_address c" by (simp add: a_def cursor)
  have a1_c: "a1 = alu_add (p1_address c) (tryte_of 1)" by (simp add: a1_def a_c)
  note facts = r parse t bound enc c s2 [unfolded L_def] cell0 [unfolded a_c]
    cell1 [unfolded a1_c] load1 [unfolded a1_c] final [unfolded a1_c]
  show ?thesis
    apply (rule exI [of _ r], rule exI [of _ t], rule exI [of _ c], rule exI [of _ s2])
    apply (insert facts)
    apply simp
    done
qed


theorem forward_reference_witness:
  "succeeds (assemble_lines (\<lambda>i. Inr (opcode i)) [''.end''])
   \<and> (\<lambda>i. Inr (opcode i)) jmp_end = (Inr (tryte_of 36) :: error + tryte)
   \<and> (\<exists>r. assemble_lines (\<lambda>i. Inr (opcode i)) [''JMP .end'', ''.end''] = Inr r
          \<and> labels (debug r) ''end'' = Some (tryte_of 2)
          \<and> block (mem r) ! 9842 = 2
          \<and> load (Inl TypeError) (mem r) (Number 1) = Inr (tryte_of 2))"
proof -
  have h1: "succeeds (assemble_lines (\<lambda>i. Inr (opcode i)) ([] @ [] @ ''.end'' # []))"
    by (simp add: assemble_end)
  have h2: "''.end'' \<notin> set []" by simp
  have h3: "(\<lambda>i. Inr (opcode i)) jmp_end = (Inr (tryte_of 36) :: error + tryte)"
    by (simp add: jmp_end_def)
  from forward_reference [OF h1 h2 h3, of "Inl TypeError"]
  obtain r t c where r: "assemble_lines (\<lambda>i. Inr (opcode i)) [''JMP .end'', ''.end''] = Inr r"
    and t: "pass1 [''JMP .end''] = Inr t"
    and b: "labels (debug r) ''end'' = Some (p1_address t)"
    and c: "pass1 [] = Inr c"
    and cell: "block (mem r) ! nat (t2n (Word (alu_add (p1_address c) (tryte_of 1))) + 9841)
                 = word_of_int (t2n (Word (p1_address t)))"
    and ld: "load (Inl TypeError) (mem r) (Word (alu_add (p1_address c) (tryte_of 1)))
                 = Inr (p1_address t)"
    by auto
  have t2: "p1_address t = tryte_of 2" using pass1_jmp_end t by auto
  have c0: "alu_add (p1_address c) (tryte_of 1) = tryte_of 1"
    using c by (auto simp: pass1_def s2t_zero alu_add_zero_one)
  have "block (mem r) ! 9842 = 2"
    using cell by (simp add: c0 t2 value_tryte_of)
  moreover have "load (Inl TypeError) (mem r) (Number 1) = Inr (tryte_of 2)"
    using ld by (simp add: c0 t2 load_def value_tryte_of)
  ultimately show ?thesis using h1 h3 r b t2 by simp
qed

text \<open>
  C9. Take a program that declares the label \<open>name\<close> twice (the second declaration being
  the last one of that name), and whose other lines assemble (the program with the
  first of the two declarations left out assembles). Then the program assembles, the
  warning \<open>label redeclared: name\<close> is among the warnings printed, and the label table
  binds the name to the pass-1 cursor at the last declaration.
\<close>

theorem redeclared_label:
  assumes "succeeds (assemble_lines pack (pre @ mid @ (CHR ''.'' # name) # post))"
    and "CHR ''.'' # name \<notin> set post"
  shows "\<exists>r t. assemble_lines pack (pre @ (CHR ''.'' # name) # mid @ (CHR ''.'' # name) # post)
             = Inr r
           \<and> [''label redeclared:'', name] \<in> set (warnings r)
           \<and> pass1 (pre @ (CHR ''.'' # name) # mid) = Inr t
           \<and> labels (debug r) name = Some (p1_address t)"
proof -
  let ?d = "CHR ''.'' # name"
  let ?rest = "pre @ mid @ ?d # post"
  let ?lines = "pre @ ?d # mid @ ?d # post"
  define s0 where "s0 = \<lparr>p1_address = [], p1_labels = Map.empty, p1_console = []\<rparr>"
  define t0 where "t0 = \<lparr>p2_address = [], cart = Memory_constructor None,
                          p2_instructions = Map.empty\<rparr>"
  have sets: "set ?lines = set ?rest" by auto
  have "succeeds (assemble_lines pack ?lines) = succeeds (assemble_lines pack ?rest)"
    unfolding assemble_lines_succeeds_iff [of pack ?lines s0 t0]
      assemble_lines_succeeds_iff [of pack ?rest s0 t0] sets ..
  then obtain r where r: "assemble_lines pack ?lines = Inr r"
    using assms(1) by (auto simp: succeeds_iff)
  then obtain s1 where s1: "pass1 ?lines = Inr s1" and lab: "labels (debug r) = p1_labels s1"
    and warn: "warnings r = p1_console s1"
    by (auto simp: assemble_lines_Inr)
  have s1': "pass1 ((pre @ ?d # mid) @ ?d # post) = Inr s1" using s1 by simp
  have "[''label redeclared:'', name] \<in> set (p1_console s1)"
    using s1' by (rule pass1_redeclared_warning) simp
  moreover from pass1_last_declaration [OF s1' assms(2)]
  obtain t where "pass1 (pre @ ?d # mid) = Inr t" "p1_labels s1 name = Some (p1_address t)"
    by auto
  ultimately show ?thesis using r lab warn by auto
qed


theorem redeclared_label_witness:
  "succeeds (assemble_lines (\<lambda>i. Inr (opcode i)) [''.end''])
   \<and> (\<exists>r t. assemble_lines (\<lambda>i. Inr (opcode i)) [''.end'', ''.end''] = Inr r
          \<and> [''label redeclared:'', ''end''] \<in> set (warnings r)
          \<and> pass1 [''.end''] = Inr t
          \<and> labels (debug r) ''end'' = Some (p1_address t))"
proof -
  have h1: "succeeds (assemble_lines (\<lambda>i. Inr (opcode i)) ([] @ [] @ (CHR ''.'' # ''end'') # []))"
    by (simp add: assemble_end)
  have h2: "CHR ''.'' # ''end'' \<notin> set []" by simp
  from redeclared_label [OF h1 h2] h1 show ?thesis by simp
qed


text \<open>
  C6. Two calls of \<open>assemble\<close> on the same source text, one after the other on any
  object store: both return what the function \<open>assemble\<close> gives for the text (the same
  error, or a program image, label table, instruction table and warnings with equal
  contents); each call allocates its Memory and its label map at references that did
  not exist before it (the store's next two references), and the second call leaves
  every object that existed before it, the first call's Memory and label map among
  them, as it was.
\<close>

theorem assemble_twice:
  assumes "assemble_heap pack input h0 = (r1, h1)" and "assemble_heap pack input h1 = (r2, h2)"
  shows "next_ref h1 = next_ref h0 + 2 \<and> next_ref h2 = next_ref h1 + 2
         \<and> (\<forall>ref. ref < next_ref h1 \<longrightarrow>
               memories h2 ref = memories h1 ref \<and> label_maps h2 ref = label_maps h1 ref)
         \<and> (case assemble pack input of
               Inl e \<Rightarrow> r1 = Inl e \<and> r2 = Inl e
             | Inr r \<Rightarrow>
                 (\<exists>o1 o2. r1 = Inr o1 \<and> r2 = Inr o2
                    \<and> mem_ref o1 = next_ref h0 \<and> labels_ref o1 = Suc (next_ref h0)
                    \<and> mem_ref o2 = next_ref h1 \<and> labels_ref o2 = Suc (next_ref h1)
                    \<and> memories h2 (mem_ref o1) = Some (mem r)
                    \<and> memories h2 (mem_ref o2) = Some (mem r)
                    \<and> label_maps h2 (labels_ref o1) = Some (labels (debug r))
                    \<and> label_maps h2 (labels_ref o2) = Some (labels (debug r))
                    \<and> instructions_of o1 = instructions (debug r)
                    \<and> instructions_of o2 = instructions (debug r)
                    \<and> warnings_of o1 = warnings r \<and> warnings_of o2 = warnings r))"
proof -
  obtain m1 t1 where h1: "h1 = allocated h0 m1 t1"
    using assemble_heap_eq [of pack input h0] assms(1) by (auto split: sum.splits)
  obtain m2 t2 where h2: "h2 = allocated h1 m2 t2"
    using assemble_heap_eq [of pack input h1] assms(2) by (auto split: sum.splits)
  have n1: "next_ref h1 = next_ref h0 + 2" by (simp add: h1 allocated_def)
  have n2: "next_ref h2 = next_ref h1 + 2" by (simp add: h2 allocated_def)
  have frame: "\<forall>ref. ref < next_ref h1 \<longrightarrow>
               memories h2 ref = memories h1 ref \<and> label_maps h2 ref = label_maps h1 ref"
    by (simp add: h2 allocated_def)
  have res: "case assemble pack input of
               Inl e \<Rightarrow> r1 = Inl e \<and> r2 = Inl e
             | Inr r \<Rightarrow>
                 (\<exists>o1 o2. r1 = Inr o1 \<and> r2 = Inr o2
                    \<and> mem_ref o1 = next_ref h0 \<and> labels_ref o1 = Suc (next_ref h0)
                    \<and> mem_ref o2 = next_ref h1 \<and> labels_ref o2 = Suc (next_ref h1)
                    \<and> memories h2 (mem_ref o1) = Some (mem r)
                    \<and> memories h2 (mem_ref o2) = Some (mem r)
                    \<and> label_maps h2 (labels_ref o1) = Some (labels (debug r))
                    \<and> label_maps h2 (labels_ref o2) = Some (labels (debug r))
                    \<and> instructions_of o1 = instructions (debug r)
                    \<and> instructions_of o2 = instructions (debug r)
                    \<and> warnings_of o1 = warnings r \<and> warnings_of o2 = warnings r)"
  proof (cases "assemble pack input")
    case (Inl e)
    then show ?thesis
      using assemble_heap_eq [of pack input h0] assemble_heap_eq [of pack input h1] assms
      by auto
  next
    case (Inr r)
    have a1: "assemble_heap pack input h0
       = (Inr \<lparr>mem_ref = next_ref h0, labels_ref = Suc (next_ref h0),
               instructions_of = instructions (debug r), warnings_of = warnings r\<rparr>,
          allocated h0 (mem r) (labels (debug r)))"
      using assemble_heap_eq [of pack input h0] Inr by simp
    have a2: "assemble_heap pack input h1
       = (Inr \<lparr>mem_ref = next_ref h1, labels_ref = Suc (next_ref h1),
               instructions_of = instructions (debug r), warnings_of = warnings r\<rparr>,
          allocated h1 (mem r) (labels (debug r)))"
      using assemble_heap_eq [of pack input h1] Inr by simp
    have e1: "h1 = allocated h0 (mem r) (labels (debug r))" using a1 assms(1) by simp
    have e2: "h2 = allocated h1 (mem r) (labels (debug r))" using a2 assms(2) by simp
    have "memories h2 (next_ref h0) = Some (mem r)"
      by (simp add: e2 allocated_def) (simp add: e1 allocated_def)
    moreover have "memories h2 (next_ref h1) = Some (mem r)" by (simp add: e2 allocated_def)
    moreover have "label_maps h2 (Suc (next_ref h0)) = Some (labels (debug r))"
      by (simp add: e2 allocated_def) (simp add: e1 allocated_def)
    moreover have "label_maps h2 (Suc (next_ref h1)) = Some (labels (debug r))"
      by (simp add: e2 allocated_def)
    ultimately show ?thesis using a1 a2 assms Inr by auto
  qed
  show ?thesis using n1 n2 frame res by blast
qed


theorem assemble_twice_witness:
  "succeeds (assemble (\<lambda>i. Inr (opcode i)) ''.end'')
   \<and> next_ref (snd (assemble_heap (\<lambda>i. Inr (opcode i)) ''.end'' \<lparr>memories = Map.empty, label_maps = Map.empty, next_ref = 0\<rparr>)) = 2
   \<and> next_ref (snd (assemble_heap (\<lambda>i. Inr (opcode i)) ''.end'' (snd (assemble_heap (\<lambda>i. Inr (opcode i)) ''.end'' \<lparr>memories = Map.empty, label_maps = Map.empty, next_ref = 0\<rparr>)))) = 4
   \<and> memories (snd (assemble_heap (\<lambda>i. Inr (opcode i)) ''.end'' (snd (assemble_heap (\<lambda>i. Inr (opcode i)) ''.end'' \<lparr>memories = Map.empty, label_maps = Map.empty, next_ref = 0\<rparr>)))) 0
       = memories (snd (assemble_heap (\<lambda>i. Inr (opcode i)) ''.end'' \<lparr>memories = Map.empty, label_maps = Map.empty, next_ref = 0\<rparr>)) 0
   \<and> label_maps (snd (assemble_heap (\<lambda>i. Inr (opcode i)) ''.end'' (snd (assemble_heap (\<lambda>i. Inr (opcode i)) ''.end'' \<lparr>memories = Map.empty, label_maps = Map.empty, next_ref = 0\<rparr>)))) 1
       = label_maps (snd (assemble_heap (\<lambda>i. Inr (opcode i)) ''.end'' \<lparr>memories = Map.empty, label_maps = Map.empty, next_ref = 0\<rparr>)) 1
   \<and> (\<exists>o1 o2. fst (assemble_heap (\<lambda>i. Inr (opcode i)) ''.end'' \<lparr>memories = Map.empty, label_maps = Map.empty, next_ref = 0\<rparr>) = Inr o1
          \<and> fst (assemble_heap (\<lambda>i. Inr (opcode i)) ''.end'' (snd (assemble_heap (\<lambda>i. Inr (opcode i)) ''.end'' \<lparr>memories = Map.empty, label_maps = Map.empty, next_ref = 0\<rparr>))) = Inr o2
          \<and> mem_ref o1 = 0 \<and> labels_ref o1 = 1 \<and> mem_ref o2 = 2 \<and> labels_ref o2 = 3
          \<and> memories (snd (assemble_heap (\<lambda>i. Inr (opcode i)) ''.end'' (snd (assemble_heap (\<lambda>i. Inr (opcode i)) ''.end'' \<lparr>memories = Map.empty, label_maps = Map.empty, next_ref = 0\<rparr>)))) 0
              = memories (snd (assemble_heap (\<lambda>i. Inr (opcode i)) ''.end'' (snd (assemble_heap (\<lambda>i. Inr (opcode i)) ''.end'' \<lparr>memories = Map.empty, label_maps = Map.empty, next_ref = 0\<rparr>)))) 2
          \<and> label_maps (snd (assemble_heap (\<lambda>i. Inr (opcode i)) ''.end'' (snd (assemble_heap (\<lambda>i. Inr (opcode i)) ''.end'' \<lparr>memories = Map.empty, label_maps = Map.empty, next_ref = 0\<rparr>)))) 1
              = label_maps (snd (assemble_heap (\<lambda>i. Inr (opcode i)) ''.end'' (snd (assemble_heap (\<lambda>i. Inr (opcode i)) ''.end'' \<lparr>memories = Map.empty, label_maps = Map.empty, next_ref = 0\<rparr>)))) 3)"
proof -
  define A where "A = assemble_heap (\<lambda>i. Inr (opcode i)) ''.end'' \<lparr>memories = Map.empty, label_maps = Map.empty, next_ref = 0\<rparr>"
  define B where "B = assemble_heap (\<lambda>i. Inr (opcode i)) ''.end'' (snd A)"
  have ok: "succeeds (assemble (\<lambda>i. Inr (opcode i)) ''.end'')"
    by (simp add: assemble_def lines_end assemble_end)
  then obtain r where r: "assemble (\<lambda>i. Inr (opcode i)) ''.end'' = Inr r"
    by (auto simp: succeeds_iff)
  have hA: "assemble_heap (\<lambda>i. Inr (opcode i)) ''.end'' \<lparr>memories = Map.empty, label_maps = Map.empty, next_ref = 0\<rparr> = (fst A, snd A)"
    by (simp add: A_def)
  have hB: "assemble_heap (\<lambda>i. Inr (opcode i)) ''.end'' (snd A) = (fst B, snd B)"
    by (simp add: B_def)
  note T = assemble_twice [OF hA hB]
  have n1: "next_ref (snd A) = 2" using T by simp
  have n2: "next_ref (snd B) = 4" using T by simp
  have f1: "memories (snd B) 0 = memories (snd A) 0" using T n1 by simp
  have f2: "label_maps (snd B) 1 = label_maps (snd A) 1" using T n1 by simp
  have "\<exists>o1 o2. fst A = Inr o1 \<and> fst B = Inr o2
          \<and> mem_ref o1 = 0 \<and> labels_ref o1 = 1 \<and> mem_ref o2 = 2 \<and> labels_ref o2 = 3
          \<and> memories (snd B) 0 = memories (snd B) 2
          \<and> label_maps (snd B) 1 = label_maps (snd B) 3"
    using T n1 by (auto simp: r)
  then show ?thesis using ok n1 n2 f1 f2 unfolding A_def B_def by blast
qed


end
